theory Spec2Isabelle
  imports Complex_Main "HOL-Library.Word" "HOL-Library.Monad_Syntax"
begin

unbundle bit_operations_syntax

section \<open>The frequency generator page (PageFrequencyGenerator.cpp, non-AVR build)\<close>

text \<open>
  The theory embeds the part of \<^verbatim>\<open>PageFrequencyGenerator.cpp\<close> that is compiled when
  \<^verbatim>\<open>AVR\<close> is not defined: the structure \<^verbatim>\<open>sFrequencyInfo\<close>, \<^verbatim>\<open>setFrequencyFactor\<close>,
  \<^verbatim>\<open>setWaveformFrequency\<close>, \<^verbatim>\<open>setFrequency\<close>, \<^verbatim>\<open>printFrequencyAndPeriod\<close>, the handler of
  the slider and the handlers of the numeric entry. The two timer back ends selected by
  \<^verbatim>\<open>#ifdef STM32F30X\<close> are one parameter of the model, the two functions of the C library
  that the file calls, \<^verbatim>\<open>pow\<close> and \<^verbatim>\<open>log10f\<close>, another.
\<close>

subsection \<open>Rounding to binary32\<close>

text \<open>
  The binary exponent of a rational: \<open>flog2 y\<close> is the number of times \<open>y\<close> can be halved
  before it drops below 2, and \<open>clog2 z\<close> the number of times \<open>z\<close> must be halved to come
  down to 1.
\<close>

function flog2 :: "rat \<Rightarrow> nat" where
  "flog2 y = (if 2 \<le> y then Suc (flog2 (y / 2)) else 0)"
  by pat_completeness auto
termination
proof (relation "measure (\<lambda>y. nat \<lfloor>y\<rfloor>)")
  show "wf (measure (\<lambda>y::rat. nat \<lfloor>y\<rfloor>))" by simp
next
  fix y :: rat
  assume "2 \<le> y"
  then have "\<lfloor>y / 2\<rfloor> < \<lfloor>y\<rfloor>" and "0 < \<lfloor>y\<rfloor>"
    by (simp_all add: floor_less_iff less_floor_iff) linarith
  then show "(y / 2, y) \<in> measure (\<lambda>y. nat \<lfloor>y\<rfloor>)" by simp
qed

function clog2 :: "rat \<Rightarrow> nat" where
  "clog2 z = (if 1 < z then Suc (clog2 (z / 2)) else 0)"
  by pat_completeness auto
termination
proof (relation "measure (\<lambda>z. nat \<lceil>z\<rceil>)")
  show "wf (measure (\<lambda>z::rat. nat \<lceil>z\<rceil>))" by simp
next
  fix z :: rat
  assume z: "1 < z"
  have "z / 2 \<le> of_int \<lceil>z\<rceil> / 2" by (simp add: divide_right_mono)
  also have "\<dots> \<le> of_int (\<lceil>z\<rceil> - 1)"
  proof -
    have "2 \<le> \<lceil>z\<rceil>" using z by (simp add: le_ceiling_iff)
    moreover have "2 \<le> c \<Longrightarrow> c \<le> 2 * (c - 1)" for c :: int by simp
    ultimately have "\<lceil>z\<rceil> \<le> 2 * (\<lceil>z\<rceil> - 1)" by blast
    then have "(of_int \<lceil>z\<rceil> :: rat) \<le> of_int (2 * (\<lceil>z\<rceil> - 1))"
      by (simp only: of_int_le_iff)
    then show ?thesis by simp
  qed
  finally have "\<lceil>z / 2\<rceil> \<le> \<lceil>z\<rceil> - 1" by (rule ceiling_le)
  moreover have "0 < \<lceil>z\<rceil>" using z by (simp add: less_ceiling_iff)
  ultimately show "(z / 2, z) \<in> measure (\<lambda>z. nat \<lceil>z\<rceil>)" by simp
qed

declare flog2.simps [simp del] clog2.simps [simp del]

text \<open>
  The exponent \<open>e\<close> of the binary32 format for the exact value \<open>x\<close>: \<open>2^e \<le> |x| < 2^(e+1)\<close>
  for a value in the normal range, and \<open>-126\<close>, the exponent of the subnormal numbers, for
  a smaller one and for zero.
\<close>

definition exponent32 :: "rat \<Rightarrow> int" where
  "exponent32 x =
     (if 1 \<le> \<bar>x\<bar> then int (flog2 \<bar>x\<bar>)
      else if x = 0 then - 126
      else max (- 126) (- int (clog2 (1 / \<bar>x\<bar>))))"

text \<open>The nearest integer, the even one of the two when \<open>y\<close> lies half-way.\<close>

definition round_half_even :: "rat \<Rightarrow> int" where
  "round_half_even y =
     (let n = \<lfloor>y\<rfloor>; d = y - of_int n
      in if d < 1 / 2 then n else if 1 / 2 < d then n + 1 else if even n then n else n + 1)"

text \<open>
  The exact value \<open>x\<close> rounded to 24 significant bits (to a multiple of \<open>2^-149\<close> in the
  subnormal range), to nearest, ties to even: the rounding of IEEE 754 binary32 with no
  bound on the exponent from above.
\<close>

definition round32 :: "rat \<Rightarrow> rat" where
  "round32 x =
     of_int (round_half_even (x / 2 powi (exponent32 x - 23))) * 2 powi (exponent32 x - 23)"

subsection \<open>Values of the types float and double\<close>

text \<open>
  A value of a C floating-point type is a rational number or one of the three special
  values of IEEE 754. The sign of zero is not part of the model. The values of \<^verbatim>\<open>float\<close>
  are the rationals that \<open>round32\<close> leaves unchanged, below \<open>2^128\<close> in magnitude; the
  only values of type \<^verbatim>\<open>double\<close> in this file are the arguments and the result of \<^verbatim>\<open>pow\<close>.
\<close>

datatype fp = Fin rat | PInf | NInf | NaN

type_synonym f32 = fp
type_synonym f64 = fp

fun isnan :: "fp \<Rightarrow> bool" where
  "isnan NaN = True"
| "isnan _ = False"

text \<open>
  The \<^verbatim>\<open>float\<close> for an exact result \<open>x\<close>: \<open>x\<close> rounded to binary32, an infinity when the
  rounded value is \<open>2^128\<close> or more in magnitude.
\<close>

definition float32 :: "rat \<Rightarrow> f32" where
  "float32 x =
     (let r = round32 x
      in if 2 ^ 128 \<le> r then PInf else if r \<le> - (2 ^ 128) then NInf else Fin r)"

text \<open>
  \<^verbatim>\<open>a / b\<close> on floats. The special values follow IEEE 754: a non-zero value divided by
  zero is an infinity, \<open>0 / 0\<close> is not a number.
\<close>

fun fdiv :: "f32 \<Rightarrow> f32 \<Rightarrow> f32" where
  "fdiv NaN _ = NaN"
| "fdiv _ NaN = NaN"
| "fdiv (Fin a) (Fin b) =
     (if b \<noteq> 0 then float32 (a / b)
      else if 0 < a then PInf else if a < 0 then NInf else NaN)"
| "fdiv (Fin a) PInf = Fin 0"
| "fdiv (Fin a) NInf = Fin 0"
| "fdiv PInf (Fin b) = (if 0 \<le> b then PInf else NInf)"
| "fdiv NInf (Fin b) = (if 0 \<le> b then NInf else PInf)"
| "fdiv PInf PInf = NaN"
| "fdiv PInf NInf = NaN"
| "fdiv NInf PInf = NaN"
| "fdiv NInf NInf = NaN"

text \<open>\<^verbatim>\<open>a * b\<close> on floats.\<close>

fun fmul :: "f32 \<Rightarrow> f32 \<Rightarrow> f32" where
  "fmul NaN _ = NaN"
| "fmul _ NaN = NaN"
| "fmul (Fin a) (Fin b) = float32 (a * b)"
| "fmul (Fin a) PInf = (if 0 < a then PInf else if a < 0 then NInf else NaN)"
| "fmul (Fin a) NInf = (if 0 < a then NInf else if a < 0 then PInf else NaN)"
| "fmul PInf (Fin b) = (if 0 < b then PInf else if b < 0 then NInf else NaN)"
| "fmul NInf (Fin b) = (if 0 < b then NInf else if b < 0 then PInf else NaN)"
| "fmul PInf PInf = PInf"
| "fmul PInf NInf = NInf"
| "fmul NInf PInf = NInf"
| "fmul NInf NInf = PInf"

text \<open>\<^verbatim>\<open>a + b\<close> on floats.\<close>

fun fadd :: "f32 \<Rightarrow> f32 \<Rightarrow> f32" where
  "fadd NaN _ = NaN"
| "fadd _ NaN = NaN"
| "fadd (Fin a) (Fin b) = float32 (a + b)"
| "fadd (Fin a) PInf = PInf"
| "fadd (Fin a) NInf = NInf"
| "fadd PInf (Fin b) = PInf"
| "fadd NInf (Fin b) = NInf"
| "fadd PInf PInf = PInf"
| "fadd PInf NInf = NaN"
| "fadd NInf PInf = NaN"
| "fadd NInf NInf = NInf"

text \<open>\<^verbatim>\<open>a < b\<close> and \<^verbatim>\<open>a > b\<close> on floats: every comparison with a NaN is false.\<close>

fun flt :: "fp \<Rightarrow> fp \<Rightarrow> bool" where
  "flt NaN _ = False"
| "flt _ NaN = False"
| "flt (Fin a) (Fin b) = (a < b)"
| "flt (Fin a) PInf = True"
| "flt (Fin a) NInf = False"
| "flt PInf _ = False"
| "flt NInf NInf = False"
| "flt NInf _ = True"

definition fgt :: "fp \<Rightarrow> fp \<Rightarrow> bool" where
  "fgt a b = flt b a"

text \<open>
  \<^verbatim>\<open>uint32_t n = x\<close> for a float \<open>x\<close>: the fraction is discarded. C leaves the conversion
  undefined when the truncated value is outside \<open>0 .. 2^32 - 1\<close>; the model takes what the
  ARM targets of this code do there (the \<^verbatim>\<open>VCVT\<close> instruction and the run-time routine
  \<^verbatim>\<open>__aeabi_f2uiz\<close> alike): the result saturates, and a NaN gives 0.
\<close>

fun f2u32 :: "f32 \<Rightarrow> 32 word" where
  "f2u32 (Fin x) =
     (if x < 0 then 0
      else if 4294967296 \<le> x then 0xFFFFFFFF
      else word_of_int \<lfloor>x\<rfloor>)"
| "f2u32 PInf = 0xFFFFFFFF"
| "f2u32 NInf = 0"
| "f2u32 NaN = 0"

text \<open>
  \<^verbatim>\<open>uint16_t n = x\<close> for a float \<open>x\<close>: the value is truncated towards zero. Where the
  truncated value is not in the range of \<^verbatim>\<open>uint16_t\<close> (\<open>x\<close> is \<open>-1\<close> or less, 65536 or
  more, infinite or not a number) C defines no result, and the model has \<open>None\<close>.
\<close>

fun f2u16 :: "f32 \<Rightarrow> 16 word option" where
  "f2u16 (Fin x) =
     (if - 1 < x \<and> x < 65536 then Some (word_of_int (if x < 0 then \<lceil>x\<rceil> else \<lfloor>x\<rfloor>))
      else None)"
| "f2u16 PInf = None"
| "f2u16 NInf = None"
| "f2u16 NaN = None"

text \<open>
  An unsigned 32-bit value, an unsigned 16-bit value and a 64-bit integer converted to
  float, and a double converted to float: each conversion rounds to binary32.
\<close>

definition u32_to_float :: "32 word \<Rightarrow> f32" where
  "u32_to_float w = float32 (of_nat (unat w))"

definition u16_to_float :: "16 word \<Rightarrow> f32" where
  "u16_to_float w = float32 (of_nat (unat w))"

definition int_to_float :: "int \<Rightarrow> f32" where
  "int_to_float i = float32 (of_int i)"

fun f64_to_f32 :: "f64 \<Rightarrow> f32" where
  "f64_to_f32 (Fin x) = float32 x"
| "f64_to_f32 PInf = PInf"
| "f64_to_f32 NInf = NInf"
| "f64_to_f32 NaN = NaN"

subsection \<open>The functions of the C library\<close>

text \<open>
  \<^verbatim>\<open>pow\<close> (on doubles) and \<^verbatim>\<open>log10f\<close> (on floats) are not part of the repository: they are
  a parameter of every function that calls them.
\<close>

record libm =
  pow :: "f64 \<Rightarrow> f64 \<Rightarrow> f64"
  log10f :: "f32 \<Rightarrow> f32"

text \<open>
  What the theorems below ask of the library, where they ask anything. \<^verbatim>\<open>log10f\<close> is
  within \<open>1/1024\<close> of the decimal logarithm on the floats from 1 to \<open>10^5\<close>; \<^verbatim>\<open>pow\<close> with
  the base 10 has a relative error of at most \<open>2^-30\<close> on the exponents from 0 to 5 that
  are floats.
\<close>

definition log10f_accurate :: "libm \<Rightarrow> bool" where
  "log10f_accurate lib \<longleftrightarrow>
     (\<forall>x. round32 x = x \<and> 1 \<le> x \<and> x \<le> 100000 \<longrightarrow>
        (\<exists>y. log10f lib (Fin x) = Fin y \<and>
             \<bar>real_of_rat y - log 10 (real_of_rat x)\<bar> \<le> 1 / 1024))"

definition pow_accurate :: "libm \<Rightarrow> bool" where
  "pow_accurate lib \<longleftrightarrow>
     (\<forall>t. round32 t = t \<and> 0 \<le> t \<and> t \<le> 5 \<longrightarrow>
        (\<exists>p. pow lib (Fin 10) (Fin t) = Fin p \<and>
             \<bar>real_of_rat p - 10 powr real_of_rat t\<bar> \<le> 10 powr real_of_rat t / 2 ^ 30))"

text \<open>
  A library within these bounds. Its \<^verbatim>\<open>pow\<close> is the real power cut off after 35 binary
  places (a value below \<open>2^17\<close> with 35 binary places has at most 52 significant bits: it
  is a double); its \<^verbatim>\<open>log10f\<close> is the real logarithm cut off after 30 binary places and
  rounded to a float.
\<close>

definition libm_truncating :: libm where
  "libm_truncating =
     \<lparr>pow = (\<lambda>a b. case (a, b) of
                (Fin x, Fin t) \<Rightarrow>
                   Fin (of_int \<lfloor>real_of_rat x powr real_of_rat t * 2 ^ 35\<rfloor> / 2 ^ 35)
              | _ \<Rightarrow> NaN),
      log10f = (\<lambda>a. case a of
                Fin x \<Rightarrow>
                   (if 0 < x
                    then float32 (of_int \<lfloor>log 10 (real_of_rat x) * 2 ^ 30\<rfloor> / 2 ^ 30)
                    else NaN)
              | _ \<Rightarrow> NaN)\<rparr>"

subsection \<open>The global state\<close>

text \<open>
  The calls made to the timer driver, which is not part of this file, are kept in the
  order in which they are made.
\<close>

datatype driver_call =
    Synth_Timer32_SetReloadValue "32 word"
  | Synth_Timer16_SetReloadValue "32 word" "32 word"
  | Synth_Timer_Start
  | Synth_Timer_Stop

text \<open>The timer back end: \<open>Timer32\<close> when \<^verbatim>\<open>STM32F30X\<close> is defined, \<open>Timer16\<close> otherwise.\<close>

datatype timer = Timer32 | Timer16

text \<open>
  The fields of \<^verbatim>\<open>struct FrequencyInfoStruct sFrequencyInfo\<close> (of the union only the member
  \<^verbatim>\<open>DividerInt\<close> is used in this file), the file's static \<^verbatim>\<open>is10HzRange\<close>, the driver calls
  made so far, and the value last given to \<^verbatim>\<open>TouchSliderFrequency.setActualValueAndDrawBar\<close>
  (\<open>None\<close> when the C conversion that produced it has no defined result).
\<close>

record globals =
  DividerInt :: "32 word"
  PeriodMicros :: "32 word"
  Frequency :: f32
  FrequencyFactorTimes1000 :: "32 word"
  FrequencyFactorIndex :: "8 word"
  Waveform :: "8 word"
  isOutputEnabled :: bool
  is10HzRange :: bool
  driver_calls :: "driver_call list"
  SliderActualValue :: "16 word option"

definition WAVEFORM_SQUARE :: "8 word" where "WAVEFORM_SQUARE = 0"
definition WAVEFORM_SINE :: "8 word" where "WAVEFORM_SINE = 1"
definition WAVEFORM_TRIANGLE :: "8 word" where "WAVEFORM_TRIANGLE = 2"
definition WAVEFORM_SAWTOOTH :: "8 word" where "WAVEFORM_SAWTOOTH = 3"

definition FREQ_SLIDER_MAX_VALUE :: int where "FREQ_SLIDER_MAX_VALUE = 300"

subsection \<open>setFrequencyFactor\<close>

text \<open>
  The loop \<^verbatim>\<open>while (aIndexValue > 0) { tFactor *= 1000; aIndexValue--; }\<close> on the 32-bit
  \<^verbatim>\<open>tFactor\<close>; the counter is the non-negative part of the \<^verbatim>\<open>int\<close> argument.
\<close>

fun tFactor_loop :: "nat \<Rightarrow> 32 word \<Rightarrow> 32 word" where
  "tFactor_loop 0 tFactor = tFactor"
| "tFactor_loop (Suc n) tFactor = tFactor_loop n (tFactor * 1000)"

definition setFrequencyFactor :: "int \<Rightarrow> globals \<Rightarrow> globals" where
  "setFrequencyFactor aIndexValue s =
     s\<lparr>FrequencyFactorIndex := word_of_int aIndexValue,
       FrequencyFactorTimes1000 := tFactor_loop (nat aIndexValue) 1\<rparr>"

subsection \<open>setWaveformFrequency\<close>

text \<open>
  The result is \<open>None\<close> when the 64-bit integer division
  \<^verbatim>\<open>36000000000 / sFrequencyInfo.FrequencyFactorTimes1000\<close> divides by zero, which C leaves
  undefined; otherwise it is the returned \<^verbatim>\<open>hasError\<close> and the state after the call. The
  integer quotient is converted to float, and the division by \<^verbatim>\<open>Frequency\<close> is one of
  floats.
\<close>

definition setWaveformFrequency :: "timer \<Rightarrow> globals \<Rightarrow> (bool \<times> globals) option" where
  "setWaveformFrequency tm s =
     (if Waveform s = WAVEFORM_SQUARE then
        (if FrequencyFactorTimes1000 s = 0 then None
         else
           let tPeriod = fdiv (int_to_float (36000000000 div uint (FrequencyFactorTimes1000 s)))
                              (Frequency s);
               tPeriodInt0 = f2u32 tPeriod;
               hasError = (tPeriodInt0 < 2);
               tPeriodInt = (if tPeriodInt0 < 2 then 2 else tPeriodInt0)
           in (case tm of
                 Timer32 \<Rightarrow>
                   Some (hasError,
                     s\<lparr>DividerInt := tPeriodInt,
                       driver_calls := driver_calls s @ [Synth_Timer32_SetReloadValue tPeriodInt]\<rparr>)
               | Timer16 \<Rightarrow>
                   let tPrescalerValue = drop_bit 16 tPeriodInt + 1;
                       tReload = (if 1 < tPrescalerValue then tPeriodInt div tPrescalerValue
                                  else tPeriodInt)
                   in Some (hasError,
                        s\<lparr>DividerInt := tReload * tPrescalerValue,
                          driver_calls := driver_calls s @
                            [Synth_Timer16_SetReloadValue tReload tPrescalerValue]\<rparr>)))
      else Some (True, s))"

text \<open>
  The locals of \<open>setWaveformFrequency\<close> on its square-wave path, as functions of the state:
  the float \<^verbatim>\<open>tPeriod\<close>, and \<^verbatim>\<open>tPeriodInt\<close> after the clip at 2. They are the values of
  the C locals when the factor is not zero; \<open>setWaveformFrequency\<close> above has no result
  when it is zero.
\<close>

definition tPeriod :: "globals \<Rightarrow> f32" where
  "tPeriod s =
     fdiv (int_to_float (36000000000 div uint (FrequencyFactorTimes1000 s))) (Frequency s)"

definition tPeriodInt :: "globals \<Rightarrow> 32 word" where
  "tPeriodInt s = (if f2u32 (tPeriod s) < 2 then 2 else f2u32 (tPeriod s))"

subsection \<open>setFrequency\<close>

text \<open>
  The loop \<^verbatim>\<open>while (aValue > 1000) { aValue /= 1000; tIndex++; }\<close> with its 8-bit counter.
  It does not end for every float (an infinity stays an infinity), so it is a partial
  function: \<open>None\<close> is the loop that never returns.
\<close>

partial_function (option) setFrequency_loop :: "f32 \<Rightarrow> 8 word \<Rightarrow> (f32 \<times> 8 word) option" where
  [code]: "setFrequency_loop aValue tIndex =
     (if fgt aValue (Fin 1000) then setFrequency_loop (fdiv aValue (Fin 1000)) (tIndex + 1)
      else Some (aValue, tIndex))"

definition setFrequency :: "timer \<Rightarrow> f32 \<Rightarrow> globals \<Rightarrow> globals option" where
  "setFrequency tm aValue s =
     do {
       (aValue', s') \<leftarrow>
         (if Waveform s = WAVEFORM_SQUARE then
            do {
              (aValue1, tIndex1) \<leftarrow> setFrequency_loop aValue 1;
              (aValue2, tIndex2) \<leftarrow>
                 Some (if flt aValue1 (Fin 1) then (fmul aValue1 (Fin 1000), 0)
                       else (aValue1, tIndex1));
              Some (aValue2, setFrequencyFactor (uint tIndex2) s)
            }
          else Some (aValue, s));
       (hasError, s'') \<leftarrow> setWaveformFrequency tm (s'\<lparr>Frequency := aValue'\<rparr>);
       Some s''
     }"

text \<open>
  The value of \<^verbatim>\<open>aValue\<close> after \<open>k\<close> rounds of the loop, each a division of floats.
\<close>

primrec div1000 :: "nat \<Rightarrow> rat \<Rightarrow> rat" where
  "div1000 0 f = f"
| "div1000 (Suc k) f = div1000 k (round32 (f / 1000))"

subsection \<open>printFrequencyAndPeriod\<close>

text \<open>
  The local \<^verbatim>\<open>tFrequency\<close> of \<^verbatim>\<open>printFrequencyAndPeriod\<close>, the frequency recomputed from the
  integer period (its value in C when \<^verbatim>\<open>FrequencyFactorTimes1000\<close> is not zero), and the local
  \<^verbatim>\<open>tPeriodMicros\<close> with its unit character after the scaling at 10000.
\<close>

definition tFrequency :: "globals \<Rightarrow> f32" where
  "tFrequency s =
     fdiv (int_to_float (36000000000 div uint (FrequencyFactorTimes1000 s)))
          (u32_to_float (DividerInt s))"

definition tPeriodMicros :: "globals \<Rightarrow> f32 \<times> char" where
  "tPeriodMicros s =
     (let tPeriodMicros0 = fdiv (u32_to_float (DividerInt s)) (Fin 36)
      in if fgt tPeriodMicros0 (Fin 10000) then (fdiv tPeriodMicros0 (Fin 1000), CHR ''m'')
         else (tPeriodMicros0, CHR 0xB5))"

text \<open>
  The local \<^verbatim>\<open>tSliderValue\<close> at the end of \<^verbatim>\<open>printFrequencyAndPeriod\<close>:
  \<^verbatim>\<open>uint16_t tSliderValue = log10f(sFrequencyInfo.Frequency) * 100;\<close>, a product of floats
  converted to 16 bits, and then \<^verbatim>\<open>tSliderValue -= 100\<close>, which wraps around in 16 bits,
  when \<^verbatim>\<open>is10HzRange\<close> is set.
\<close>

definition tSliderValue :: "libm \<Rightarrow> globals \<Rightarrow> 16 word option" where
  "tSliderValue lib s =
     (let tSliderValue0 = f2u16 (fmul (log10f lib (Frequency s)) (Fin 100))
      in if is10HzRange s then map_option (\<lambda>v. v - 100) tSliderValue0 else tSliderValue0)"

text \<open>
  Of \<^verbatim>\<open>printFrequencyAndPeriod\<close> the model keeps the slider position it sets; the two texts
  it draws show \<open>tFrequency\<close> and \<open>tPeriodMicros\<close>. As in \<open>setWaveformFrequency\<close>, \<open>None\<close>
  is the integer division by a zero factor.
\<close>

definition printFrequencyAndPeriod :: "libm \<Rightarrow> globals \<Rightarrow> globals option" where
  "printFrequencyAndPeriod lib s =
     (if FrequencyFactorTimes1000 s = 0 then None
      else Some (s\<lparr>SliderActualValue := tSliderValue lib s\<rparr>))"

definition SetWaveformFrequencyAndPrintValues ::
    "libm \<Rightarrow> timer \<Rightarrow> globals \<Rightarrow> (bool \<times> globals) option" where
  "SetWaveformFrequencyAndPrintValues lib tm s =
     do {
       (hasError, s1) \<leftarrow> setWaveformFrequency tm s;
       s2 \<leftarrow> printFrequencyAndPeriod lib s1;
       Some (hasError, s2)
     }"

subsection \<open>The slider\<close>

text \<open>
  \<^verbatim>\<open>doFrequencySlider\<close>: the position \<^verbatim>\<open>aValue\<close> becomes a float, is divided by
  \<^verbatim>\<open>FREQ_SLIDER_MAX_VALUE / 3\<close> (an integer division, 100) and, in the 10 Hz range, increased
  by 1; the double \<^verbatim>\<open>pow(10, tValue)\<close> is stored in the float \<^verbatim>\<open>Frequency\<close>.
\<close>

definition doFrequencySlider :: "libm \<Rightarrow> timer \<Rightarrow> 16 word \<Rightarrow> globals \<Rightarrow> globals option" where
  "doFrequencySlider lib tm aValue s =
     (let tValue0 = u16_to_float aValue;
          tValue1 = fdiv tValue0 (int_to_float (FREQ_SLIDER_MAX_VALUE div 3));
          tValue = (if is10HzRange s then fadd tValue1 (Fin 1) else tValue1)
      in do {
           (hasError, s') \<leftarrow>
              SetWaveformFrequencyAndPrintValues lib tm
                (s\<lparr>Frequency := f64_to_f32 (pow lib (Fin 10) tValue)\<rparr>);
           Some s'
         })"

subsection \<open>The numeric entry\<close>

text \<open>
  Without a local display the number arrives in \<^verbatim>\<open>doSetFrequency\<close>. With a local display
  (\<^verbatim>\<open>LOCAL_DISPLAY_EXISTS\<close>) \<^verbatim>\<open>doGetFrequency\<close> reads it from the number pad, whose result
  \<^verbatim>\<open>tNumber\<close> is the argument here; \<^verbatim>\<open>drawFrequencyGeneratorPage\<close> redraws the page and ends
  in \<^verbatim>\<open>printFrequencyAndPeriod\<close>.
\<close>

definition doSetFrequency :: "libm \<Rightarrow> timer \<Rightarrow> f32 \<Rightarrow> globals \<Rightarrow> globals option" where
  "doSetFrequency lib tm aValue s =
     do {
       s1 \<leftarrow> setFrequency tm aValue s;
       printFrequencyAndPeriod lib s1
     }"

definition drawFrequencyGeneratorPage :: "libm \<Rightarrow> globals \<Rightarrow> globals option" where
  "drawFrequencyGeneratorPage lib s = printFrequencyAndPeriod lib s"

definition doGetFrequency :: "libm \<Rightarrow> timer \<Rightarrow> f32 \<Rightarrow> globals \<Rightarrow> globals option" where
  "doGetFrequency lib tm tNumber s =
     do {
       s1 \<leftarrow> Some (if \<not> isnan tNumber then s\<lparr>Frequency := tNumber\<rparr> else s);
       s2 \<leftarrow> drawFrequencyGeneratorPage lib s1;
       (hasError, s3) \<leftarrow> SetWaveformFrequencyAndPrintValues lib tm s2;
       Some s3
     }"

subsection \<open>Start of the page\<close>

text \<open>
  The statics before any code has run: \<^verbatim>\<open>sFrequencyInfo\<close> is zero-initialised and
  \<^verbatim>\<open>is10HzRange\<close> starts as \<^verbatim>\<open>true\<close>.
\<close>

definition boot :: globals where
  "boot =
     \<lparr>DividerInt = 0, PeriodMicros = 0, Frequency = Fin 0, FrequencyFactorTimes1000 = 0,
      FrequencyFactorIndex = 0, Waveform = 0, isOutputEnabled = False, is10HzRange = True,
      driver_calls = [], SliderActualValue = None\<rparr>"

definition initFrequencyGeneratorPage :: "timer \<Rightarrow> globals \<Rightarrow> globals option" where
  "initFrequencyGeneratorPage tm s =
     do {
       s1 \<leftarrow> setFrequency tm (Fin 200) (s\<lparr>Waveform := WAVEFORM_SQUARE\<rparr>);
       Some (s1\<lparr>isOutputEnabled := True\<rparr>)
     }"

text \<open>
  A state with the square waveform, the target \<open>f\<close> and the decade \<open>i\<close>
  (0 for mHz, 1 for Hz, 2 for kHz, 3 for MHz), not translated yet.
\<close>

definition target_state :: "rat \<Rightarrow> int \<Rightarrow> globals" where
  "target_state f i = setFrequencyFactor i (boot\<lparr>Frequency := Fin f\<rparr>)"

section \<open>Auxiliary facts\<close>

subsection \<open>The binary exponent\<close>

lemma flog2_bounds:
  "1 \<le> y \<Longrightarrow> 2 ^ flog2 y \<le> y \<and> y < 2 ^ Suc (flog2 y)"
proof (induction y rule: flog2.induct)
  case (1 y)
  show ?case
  proof (cases "2 \<le> y")
    case True
    then have "1 \<le> y / 2" by simp
    from 1(1)[OF True this] have "2 ^ flog2 (y / 2) \<le> y / 2"
      and "y / 2 < 2 ^ Suc (flog2 (y / 2))" by simp_all
    then have "2 * 2 ^ flog2 (y / 2) \<le> y"
      and "y < 2 * 2 ^ Suc (flog2 (y / 2))" by (simp_all add: field_simps)
    moreover have "flog2 y = Suc (flog2 (y / 2))"
      using True by (subst flog2.simps) simp
    ultimately show ?thesis by simp
  next
    case False
    then have "flog2 y = 0" by (subst flog2.simps) simp
    then show ?thesis using False 1(2) by simp
  qed
qed

lemma clog2_bounds:
  "0 < z \<Longrightarrow> z \<le> 2 ^ clog2 z \<and> (clog2 z = 0 \<or> 2 ^ clog2 z < 2 * z)"
proof (induction z rule: clog2.induct)
  case (1 z)
  show ?case
  proof (cases "1 < z")
    case True
    have "0 < z / 2" using 1(2) by simp
    from 1(1)[OF True this] have a: "z / 2 \<le> 2 ^ clog2 (z / 2)"
      and b: "clog2 (z / 2) = 0 \<or> 2 ^ clog2 (z / 2) < z" by simp_all
    have e: "clog2 z = Suc (clog2 (z / 2))"
      using True by (subst clog2.simps) simp
    from a have "z \<le> 2 * 2 ^ clog2 (z / 2)" by (simp add: field_simps)
    moreover from b True have "2 * 2 ^ clog2 (z / 2) < 2 * z" by auto
    ultimately show ?thesis using e by simp
  next
    case False
    then have "clog2 z = 0" by (subst clog2.simps) simp
    then show ?thesis using False by simp
  qed
qed

lemma clog2_pos: "1 < z \<Longrightarrow> 0 < clog2 z"
  by (subst clog2.simps) simp

lemma two_powi_less_imp: "(2::rat) powi m < 2 powi n \<Longrightarrow> m < n"
proof (rule ccontr)
  assume h: "(2::rat) powi m < 2 powi n" and "\<not> m < n"
  then have "n \<le> m" by simp
  then have "(2::rat) powi n \<le> 2 powi m" by (intro power_int_increasing) simp_all
  with h show False by simp
qed

lemma exponent32_ge: "- 126 \<le> exponent32 x"
  by (simp add: exponent32_def)

lemma exponent32_small:
  assumes a1: "\<bar>x\<bar> < 1" and x0: "x \<noteq> 0"
  shows "2 powi (- int (clog2 (1 / \<bar>x\<bar>))) \<le> \<bar>x\<bar>"
    and "\<bar>x\<bar> < 2 powi (1 - int (clog2 (1 / \<bar>x\<bar>)))"
proof -
  define a where "a = \<bar>x\<bar>"
  define k where "k = clog2 (1 / a)"
  have a0: "0 < a" using x0 by (simp add: a_def)
  have z1: "1 < 1 / a" using a1 a0 by (simp add: a_def)
  have z0: "0 < 1 / a" using a0 by simp
  from clog2_bounds[OF z0] clog2_pos[OF z1]
  have u: "1 / a \<le> 2 ^ k" and l: "2 ^ k < 2 * (1 / a)" by (auto simp: k_def)
  have p: "(0::rat) < 2 ^ k" by simp
  from u have "1 \<le> 2 ^ k * a" using a0 by (simp add: field_simps)
  then have "1 / 2 ^ k \<le> a" using p by (simp add: field_simps)
  then show "2 powi (- int (clog2 (1 / \<bar>x\<bar>))) \<le> \<bar>x\<bar>"
    by (simp add: power_int_minus_divide k_def a_def)
  from l have "2 ^ k * a < 2" using a0 by (simp add: field_simps)
  then have "a < 2 / 2 ^ k" using p by (simp add: field_simps)
  moreover have "(2::rat) powi (1 - int k) = 2 / 2 ^ k"
    by (simp add: power_int_diff)
  ultimately show "\<bar>x\<bar> < 2 powi (1 - int (clog2 (1 / \<bar>x\<bar>)))"
    by (simp add: k_def a_def)
qed

lemma exponent32_upper: "\<bar>x\<bar> < 2 powi (exponent32 x + 1)"
proof (cases "1 \<le> \<bar>x\<bar>")
  case True
  from flog2_bounds[OF True] have "\<bar>x\<bar> < 2 ^ Suc (flog2 \<bar>x\<bar>)" by simp
  moreover have "(2::rat) powi (int (flog2 \<bar>x\<bar>) + 1) = 2 ^ Suc (flog2 \<bar>x\<bar>)"
    by (simp add: power_int_add)
  ultimately show ?thesis using True by (simp add: exponent32_def)
next
  case False
  show ?thesis
  proof (cases "x = 0")
    case True
    then show ?thesis by simp
  next
    case x0: False
    from False have a1: "\<bar>x\<bar> < 1" by simp
    note s = exponent32_small[OF a1 x0]
    have "- int (clog2 (1 / \<bar>x\<bar>)) \<le> exponent32 x"
      using False x0 by (simp add: exponent32_def)
    then have "(2::rat) powi (1 - int (clog2 (1 / \<bar>x\<bar>))) \<le> 2 powi (exponent32 x + 1)"
      by (intro power_int_increasing) simp_all
    with s(2) show ?thesis by simp
  qed
qed

lemma exponent32_lower:
  assumes "2 powi (- 126) \<le> \<bar>x\<bar>"
  shows "2 powi exponent32 x \<le> \<bar>x\<bar>"
proof (cases "1 \<le> \<bar>x\<bar>")
  case True
  from flog2_bounds[OF True] show ?thesis using True by (simp add: exponent32_def)
next
  case False
  then have a1: "\<bar>x\<bar> < 1" by simp
  have x0: "x \<noteq> 0"
  proof
    assume "x = 0"
    with assms have "(2::rat) powi (- 126) \<le> 0" by simp
    moreover have "(0::rat) < 2 powi (- 126)" by (intro zero_less_power_int) simp
    ultimately show False by simp
  qed
  note s = exponent32_small[OF a1 x0]
  from assms s(2) have "(2::rat) powi (- 126) < 2 powi (1 - int (clog2 (1 / \<bar>x\<bar>)))"
    by simp
  then have "- 126 < 1 - int (clog2 (1 / \<bar>x\<bar>))" by (rule two_powi_less_imp)
  then have "exponent32 x = - int (clog2 (1 / \<bar>x\<bar>))"
    using False x0 by (simp add: exponent32_def)
  with s(1) show ?thesis by simp
qed

lemma exponent32_unique:
  assumes lo: "2 powi e \<le> \<bar>x\<bar>" and hi: "\<bar>x\<bar> < 2 powi (e + 1)" and e: "- 126 \<le> e"
  shows "exponent32 x = e"
proof -
  have "(2::rat) powi (- 126) \<le> 2 powi e" using e by (intro power_int_increasing) simp_all
  then have n: "2 powi (- 126) \<le> \<bar>x\<bar>" using lo by simp
  from exponent32_lower[OF n] hi have "(2::rat) powi exponent32 x < 2 powi (e + 1)" by simp
  then have "exponent32 x < e + 1" by (rule two_powi_less_imp)
  moreover from lo exponent32_upper[of x] have "(2::rat) powi e < 2 powi (exponent32 x + 1)"
    by simp
  then have "e < exponent32 x + 1" by (rule two_powi_less_imp)
  ultimately show ?thesis by simp
qed

lemma exponent32_subnormal:
  assumes "\<bar>x\<bar> < 2 powi (- 126)"
  shows "exponent32 x = - 126"
proof (rule ccontr)
  assume "exponent32 x \<noteq> - 126"
  then have g: "- 125 \<le> exponent32 x" using exponent32_ge[of x] by simp
  have lt1: "\<bar>x\<bar> < 1"
  proof -
    have "(2::rat) powi (- 126) \<le> 2 powi 0" by (intro power_int_increasing) simp_all
    then show ?thesis using assms by simp
  qed
  have x0: "x \<noteq> 0" using g by (auto simp: exponent32_def)
  note s = exponent32_small[OF lt1 x0]
  have "exponent32 x = - int (clog2 (1 / \<bar>x\<bar>))"
    using g lt1 x0 by (simp add: exponent32_def max_def split: if_splits)
  then have "2 powi exponent32 x \<le> \<bar>x\<bar>" using s(1) by simp
  moreover have "(2::rat) powi (- 126) \<le> 2 powi exponent32 x"
    using g by (intro power_int_increasing) simp_all
  ultimately show False using assms by simp
qed

subsection \<open>Rounding to an integer, ties to even\<close>

lemma rhe_error: "\<bar>of_int (round_half_even y) - y\<bar> \<le> 1 / 2"
proof -
  define n where "n = \<lfloor>y\<rfloor>"
  have "of_int n \<le> y" "y < of_int n + 1" by (simp_all add: n_def) linarith
  then show ?thesis
    unfolding round_half_even_def Let_def n_def[symmetric]
    by (auto simp: abs_if)
qed

lemma rhe_near:
  assumes "\<bar>y - of_int n\<bar> < 1 / 2"
  shows "round_half_even y = n"
proof (cases "of_int n \<le> y")
  case True
  then have "y < of_int n + 1 / 2" using assms by simp
  then have "y < of_int n + 1" by simp
  with True have f: "\<lfloor>y\<rfloor> = n" by (simp add: floor_eq_iff)
  show ?thesis using \<open>y < of_int n + 1 / 2\<close>
    by (simp add: round_half_even_def Let_def f)
next
  case False
  then have lo: "of_int n - 1 / 2 < y" and hi: "y < of_int n" using assms by (simp_all add: abs_if split: if_splits)
  then have "of_int (n - 1) \<le> y" "y < of_int (n - 1) + 1" by simp_all
  then have f: "\<lfloor>y\<rfloor> = n - 1" by (simp only: floor_eq_iff)
  show ?thesis using lo
    by (simp add: round_half_even_def Let_def f)
qed

lemma rhe_of_int [simp]: "round_half_even (of_int n) = n"
  by (rule rhe_near) simp

lemma rhe_tie:
  assumes "y = of_int n + 1 / 2"
  shows "round_half_even y = (if even n then n else n + 1)"
proof -
  have "of_int n \<le> y" "y < of_int n + 1" using assms by simp_all
  then have f: "\<lfloor>y\<rfloor> = n" by (simp add: floor_eq_iff)
  have d: "y - of_int n = 1 / 2" using assms by simp
  show ?thesis unfolding round_half_even_def Let_def f d by simp
qed

lemma rhe_ge:
  assumes "of_int n \<le> y"
  shows "n \<le> round_half_even y"
proof -
  have "n \<le> \<lfloor>y\<rfloor>" using assms by (simp add: le_floor_iff)
  then show ?thesis by (simp add: round_half_even_def Let_def)
qed

lemma rhe_le:
  assumes "y \<le> of_int n"
  shows "round_half_even y \<le> n"
proof (cases "y = of_int n")
  case True
  then show ?thesis by simp
next
  case False
  with assms have "y < of_int n" by simp
  then have "\<lfloor>y\<rfloor> < n" by (simp add: floor_less_iff)
  then show ?thesis by (simp add: round_half_even_def Let_def)
qed

subsection \<open>The rounding to 24 bits\<close>

lemma two_powi_pos: "(0::rat) < 2 powi k"
  by (intro zero_less_power_int) simp

lemma two_powi_less_imp_le: "(x::rat) < 2 powi (e + 1) \<Longrightarrow> 2 powi d \<le> x \<Longrightarrow> d \<le> e"
proof -
  assume a: "x < 2 powi (e + 1)" and b: "2 powi d \<le> x"
  then have "(2::rat) powi d < 2 powi (e + 1)" by linarith
  then have "d < e + 1" by (rule two_powi_less_imp)
  then show ?thesis by simp
qed

lemma two_powi_split: "m = a + b \<Longrightarrow> (2::rat) powi m = 2 powi a * 2 powi b"
  by (simp add: power_int_add)

lemma round32_0: "round32 0 = 0"
  using rhe_of_int[of 0] by (simp add: round32_def)

lemma round32_eval:
  assumes "2 powi e \<le> \<bar>x\<bar>" "\<bar>x\<bar> < 2 powi (e + 1)" "- 126 \<le> e"
  shows "round32 x = of_int (round_half_even (x / 2 powi (e - 23))) * 2 powi (e - 23)"
  using exponent32_unique[OF assms] by (simp add: round32_def)

lemma round32_near:
  assumes "2 powi e \<le> \<bar>x\<bar>" "\<bar>x\<bar> < 2 powi (e + 1)" "- 126 \<le> e"
    and "\<bar>x / 2 powi (e - 23) - of_int n\<bar> < 1 / 2"
  shows "round32 x = of_int n * 2 powi (e - 23)"
  using round32_eval[OF assms(1-3)] rhe_near[OF assms(4)] by simp

lemma round32_tie:
  assumes "2 powi e \<le> \<bar>x\<bar>" "\<bar>x\<bar> < 2 powi (e + 1)" "- 126 \<le> e"
    and "x / 2 powi (e - 23) = of_int n + 1 / 2" and "even n"
  shows "round32 x = of_int n * 2 powi (e - 23)"
  using round32_eval[OF assms(1-3)] rhe_tie[OF assms(4)] assms(5) by simp

lemma round32_abs_error: "\<bar>round32 x - x\<bar> \<le> 2 powi (exponent32 x - 24)"
proof -
  define q :: rat where "q = 2 powi (exponent32 x - 23)"
  have q0: "0 < q" by (simp add: q_def two_powi_pos)
  have "round32 x - x = (of_int (round_half_even (x / q)) - x / q) * q"
    using q0 by (simp add: round32_def q_def[symmetric] algebra_simps)
  then have "\<bar>round32 x - x\<bar> = \<bar>of_int (round_half_even (x / q)) - x / q\<bar> * q"
    using q0 by (simp add: abs_mult)
  also have "\<dots> \<le> (1 / 2) * q"
    using rhe_error[of "x / q"] q0 by (intro mult_right_mono) simp_all
  also have "\<dots> = 2 powi (exponent32 x - 24)"
  proof -
    have "q = 2 powi (exponent32 x - 24) * 2 powi 1"
      unfolding q_def by (rule two_powi_split) simp
    then show ?thesis by simp
  qed
  finally show ?thesis .
qed

lemma round32_rel_error:
  assumes "2 powi (- 126) \<le> \<bar>x\<bar>"
  shows "\<bar>round32 x - x\<bar> \<le> \<bar>x\<bar> / 2 ^ 24"
proof -
  have "(2::rat) powi (exponent32 x - 24) = 2 powi exponent32 x / 2 ^ 24"
    by (simp add: power_int_diff)
  also have "\<dots> \<le> \<bar>x\<bar> / 2 ^ 24"
    using exponent32_lower[OF assms] by (simp add: divide_right_mono)
  finally show ?thesis using round32_abs_error[of x] by linarith
qed

lemma round32_nonneg: "0 \<le> x \<Longrightarrow> 0 \<le> round32 x"
proof -
  assume "0 \<le> x"
  then have "of_int 0 \<le> x / 2 powi (exponent32 x - 23)"
    using two_powi_pos[of "exponent32 x - 23"] by simp
  then have "0 \<le> round_half_even (x / 2 powi (exponent32 x - 23))" by (rule rhe_ge)
  then show ?thesis
    using two_powi_pos[of "exponent32 x - 23"] by (simp add: round32_def)
qed

lemma round32_nonpos: "x \<le> 0 \<Longrightarrow> round32 x \<le> 0"
proof -
  assume "x \<le> 0"
  then have "x / 2 powi (exponent32 x - 23) \<le> of_int 0"
    using two_powi_pos[of "exponent32 x - 23"] by (simp add: divide_le_0_iff)
  then have "round_half_even (x / 2 powi (exponent32 x - 23)) \<le> 0" by (rule rhe_le)
  then show ?thesis
    using two_powi_pos[of "exponent32 x - 23"] by (simp add: round32_def mult_le_0_iff)
qed

lemma round32_ge_powi:
  assumes lo: "2 powi e \<le> x" and e: "- 126 \<le> e"
  shows "2 powi e \<le> round32 x"
proof -
  define E where "E = exponent32 x"
  have x0: "0 < x" using lo two_powi_pos[of e] by linarith
  then have ax: "\<bar>x\<bar> = x" by simp
  have "(2::rat) powi (- 126) \<le> 2 powi e" using e by (intro power_int_increasing) simp_all
  then have n: "2 powi (- 126) \<le> \<bar>x\<bar>" using lo ax by linarith
  have up: "x < 2 powi (E + 1)" using exponent32_upper[of x] ax by (simp add: E_def)
  have eE: "e \<le> E" using two_powi_less_imp_le[OF up lo] .
  have low: "2 powi E \<le> x" using exponent32_lower[OF n] ax by (simp add: E_def)
  have sp: "(2::rat) powi E = 2 powi 23 * 2 powi (E - 23)"
    by (rule two_powi_split) simp
  then have "of_int (2 ^ 23) \<le> x / 2 powi (E - 23)"
    using low two_powi_pos[of "E - 23"] by (simp add: le_divide_eq)
  then have "2 ^ 23 \<le> round_half_even (x / 2 powi (E - 23))" by (rule rhe_ge)
  then have "(of_int (2 ^ 23) :: rat) \<le> of_int (round_half_even (x / 2 powi (E - 23)))"
    by (simp only: of_int_le_iff)
  then have "of_int (2 ^ 23) * 2 powi (E - 23) \<le> round32 x"
    using two_powi_pos[of "E - 23"] by (simp add: round32_def E_def[symmetric])
  moreover have "(of_int (2 ^ 23) :: rat) * 2 powi (E - 23) = 2 powi E"
    using sp by simp
  moreover have "(2::rat) powi e \<le> 2 powi E" using eE by (intro power_int_increasing) simp_all
  ultimately show ?thesis by linarith
qed

lemma round32_abs_le: "\<bar>round32 x\<bar> \<le> 2 powi (exponent32 x + 1)"
proof -
  define E where "E = exponent32 x"
  define y where "y = x / 2 powi (E - 23)"
  have q0: "(0::rat) < 2 powi (E - 23)" by (rule two_powi_pos)
  have s: "(2::rat) powi (E + 1) = 2 powi 24 * 2 powi (E - 23)"
    by (rule two_powi_split) simp
  have "\<bar>x\<bar> < 2 powi (E + 1)" using exponent32_upper[of x] by (simp add: E_def)
  then have "\<bar>y\<bar> < 2 powi 24"
    using q0 by (simp add: y_def s pos_divide_less_eq)
  then have "y \<le> of_int (2 ^ 24)" and "of_int (- (2 ^ 24)) \<le> y" by simp_all
  then have "round_half_even y \<le> 2 ^ 24" and "- (2 ^ 24) \<le> round_half_even y"
    by (simp_all only: rhe_le rhe_ge)
  then have "\<bar>round_half_even y\<bar> \<le> 2 ^ 24" by simp
  then have "(of_int \<bar>round_half_even y\<bar> :: rat) \<le> of_int (2 ^ 24)" by (simp only: of_int_le_iff)
  then have "\<bar>of_int (round_half_even y) :: rat\<bar> \<le> 2 powi 24" by simp
  then have "\<bar>of_int (round_half_even y) :: rat\<bar> * 2 powi (E - 23) \<le> 2 powi 24 * 2 powi (E - 23)"
    using q0 by (intro mult_right_mono) simp_all
  moreover have "\<bar>round32 x\<bar> = \<bar>of_int (round_half_even y) :: rat\<bar> * 2 powi (E - 23)"
    using q0 by (simp add: round32_def E_def[symmetric] y_def abs_mult)
  ultimately show ?thesis using s by (simp add: E_def)
qed

lemma round32_mantissa:
  "\<exists>n. \<bar>n\<bar> \<le> 2 ^ 24 \<and> round32 x = of_int n * 2 powi (exponent32 x - 23)"
proof -
  define E where "E = exponent32 x"
  define y where "y = x / 2 powi (E - 23)"
  have q0: "(0::rat) < 2 powi (E - 23)" by (rule two_powi_pos)
  have s: "(2::rat) powi (E + 1) = 2 powi 24 * 2 powi (E - 23)"
    by (rule two_powi_split) simp
  have "\<bar>x\<bar> < 2 powi (E + 1)" using exponent32_upper[of x] by (simp add: E_def)
  then have "\<bar>y\<bar> < 2 powi 24"
    using q0 by (simp add: y_def s pos_divide_less_eq)
  then have "y \<le> of_int (2 ^ 24)" and "of_int (- (2 ^ 24)) \<le> y" by simp_all
  then have "round_half_even y \<le> 2 ^ 24" and "- (2 ^ 24) \<le> round_half_even y"
    by (simp_all only: rhe_le rhe_ge)
  then have "\<bar>round_half_even y\<bar> \<le> 2 ^ 24" by simp
  moreover have "round32 x = of_int (round_half_even y) * 2 powi (E - 23)"
    by (simp add: round32_def E_def y_def)
  ultimately show ?thesis unfolding E_def by blast
qed

lemma exponent32_le:
  assumes "\<bar>x\<bar> < 2 powi (e + 1)" and "- 126 \<le> e"
  shows "exponent32 x \<le> e"
proof (cases "2 powi (- 126) \<le> \<bar>x\<bar>")
  case True
  from exponent32_lower[OF True] show ?thesis using two_powi_less_imp_le[OF assms(1)] by simp
next
  case False
  then have "exponent32 x = - 126" by (intro exponent32_subnormal) simp
  then show ?thesis using assms(2) by simp
qed

lemma round32_bound:
  assumes "\<bar>x\<bar> < 2 powi (e + 1)" and "- 126 \<le> e"
  shows "\<bar>round32 x\<bar> \<le> 2 powi (e + 1)"
proof -
  have "exponent32 x + 1 \<le> e + 1" using exponent32_le[OF assms] by simp
  then have "(2::rat) powi (exponent32 x + 1) \<le> 2 powi (e + 1)"
    by (intro power_int_increasing) simp_all
  then show ?thesis using round32_abs_le[of x] by linarith
qed

lemma round32_exact:
  assumes n: "\<bar>n\<bar> < 2 ^ 24" and k: "- 149 \<le> k"
  shows "round32 (of_int n * 2 powi k) = of_int n * 2 powi k"
proof -
  define x :: rat where "x = of_int n * 2 powi k"
  define E where "E = exponent32 x"
  have E126: "- 126 \<le> E" by (simp add: E_def exponent32_ge)
  have ax: "\<bar>x\<bar> = of_int \<bar>n\<bar> * 2 powi k"
    using two_powi_pos[of k] by (simp add: x_def abs_mult)
  have Ek: "E \<le> k + 23"
  proof (cases "2 powi (- 126) \<le> \<bar>x\<bar>")
    case True
    have "(of_int \<bar>n\<bar> :: rat) < of_int (2 ^ 24)" using n by (simp only: of_int_less_iff)
    then have "\<bar>x\<bar> < 2 powi 24 * 2 powi k"
      using two_powi_pos[of k] by (simp add: ax)
    also have "\<dots> = 2 powi ((k + 23) + 1)"
      by (rule two_powi_split[symmetric]) simp
    finally have "\<bar>x\<bar> < 2 powi ((k + 23) + 1)" .
    moreover have "2 powi E \<le> \<bar>x\<bar>" using exponent32_lower[OF True] by (simp add: E_def)
    ultimately show ?thesis by (rule two_powi_less_imp_le)
  next
    case False
    then have "E = - 126" unfolding E_def by (intro exponent32_subnormal) simp
    then show ?thesis using k by simp
  qed
  define d where "d = nat (k + 23 - E)"
  have kd: "k = int d + (E - 23)" using Ek by (simp add: d_def)
  have p: "(2::rat) powi k = 2 ^ d * 2 powi (E - 23)"
    by (subst kd, subst power_int_add) (simp_all add: power_int_of_nat)
  have "x / 2 powi (E - 23) = of_int (n * 2 ^ d)"
    using two_powi_pos[of "E - 23"] by (simp add: x_def p)
  then have "round_half_even (x / 2 powi (E - 23)) = n * 2 ^ d"
    by (simp only: rhe_of_int)
  then have "round32 x = of_int (n * 2 ^ d) * 2 powi (E - 23)"
    by (simp add: round32_def E_def[symmetric])
  also have "\<dots> = x" by (simp add: x_def p)
  finally show ?thesis by (simp add: x_def)
qed

text \<open>A rounded value is a float: rounding it again changes nothing.\<close>

lemma round32_idem: "round32 (round32 x) = round32 x"
proof -
  obtain n where n: "\<bar>n\<bar> \<le> 2 ^ 24" and r: "round32 x = of_int n * 2 powi (exponent32 x - 23)"
    using round32_mantissa[of x] by blast
  have k: "- 149 \<le> exponent32 x - 23" using exponent32_ge[of x] by simp
  show ?thesis
  proof (cases "\<bar>n\<bar> < 2 ^ 24")
    case True
    show ?thesis unfolding r by (rule round32_exact[OF True k])
  next
    case False
    then have "\<bar>n\<bar> = 2 ^ 24" using n by simp
    then consider "n = 2 ^ 24" | "n = - (2 ^ 24)" by (auto simp: abs_if split: if_splits)
    then obtain m :: int where m: "\<bar>m\<bar> < 2 ^ 24" and nm: "n = m * 2"
    proof cases
      case 1
      have "\<bar>2 ^ 23 :: int\<bar> < 2 ^ 24" "n = 2 ^ 23 * 2" using 1 by simp_all
      then show ?thesis by (rule that)
    next
      case 2
      have "\<bar>- (2 ^ 23) :: int\<bar> < 2 ^ 24" "n = - (2 ^ 23) * 2" using 2 by simp_all
      then show ?thesis by (rule that)
    qed
    have "(2::rat) powi (exponent32 x - 22) = 2 powi 1 * 2 powi (exponent32 x - 23)"
      by (rule two_powi_split) simp
    then have e: "round32 x = of_int m * 2 powi (exponent32 x - 22)"
      by (simp add: r nm)
    have "- 149 \<le> exponent32 x - 22" using k by simp
    then show ?thesis unfolding e by (rule round32_exact[OF m])
  qed
qed

lemma round32_of_int: "\<bar>n\<bar> < 2 ^ 24 \<Longrightarrow> round32 (of_int n) = of_int n"
  using round32_exact[of n 0] by simp

subsection \<open>Floats\<close>

lemma float32_Fin:
  assumes "\<bar>x\<bar> < 2 ^ 127"
  shows "float32 x = Fin (round32 x)"
proof -
  have "\<bar>x\<bar> < 2 powi (126 + 1)" using assms by simp
  then have "\<bar>round32 x\<bar> \<le> 2 powi (126 + 1)" by (rule round32_bound) simp
  then have "\<bar>round32 x\<bar> < 2 ^ 128" by simp
  then show ?thesis by (simp add: float32_def Let_def abs_less_iff not_le)
qed

lemma float32_exact:
  assumes "\<bar>n\<bar> < 2 ^ 24" and "- 149 \<le> k" and "\<bar>of_int n * 2 powi k :: rat\<bar> < 2 ^ 127"
  shows "float32 (of_int n * 2 powi k) = Fin (of_int n * 2 powi k)"
  using float32_Fin[OF assms(3)] round32_exact[OF assms(1,2)] by simp

lemma float32_of_int: "\<bar>n\<bar> < 2 ^ 24 \<Longrightarrow> float32 (of_int n) = Fin (of_int n)"
proof -
  assume n: "\<bar>n\<bar> < 2 ^ 24"
  then have "(of_int \<bar>n\<bar> :: rat) < of_int (2 ^ 24)" by (simp only: of_int_less_iff)
  then have "\<bar>of_int n :: rat\<bar> < 2 ^ 127" by simp
  then show ?thesis using float32_Fin[of "of_int n"] round32_of_int[OF n] by simp
qed

lemma float32_numeral:
  "(numeral w :: int) < 2 ^ 24 \<Longrightarrow> float32 (numeral w) = Fin (numeral w)"
  using float32_of_int[of "numeral w"] by simp

lemma float32_0: "float32 0 = Fin 0"
  using float32_of_int[of 0] by simp

lemma float32_1: "float32 1 = Fin 1"
  using float32_of_int[of 1] by simp

lemma float32_near:
  assumes "2 powi e \<le> \<bar>x\<bar>" "\<bar>x\<bar> < 2 powi (e + 1)" "- 126 \<le> e" "e \<le> 126"
    and "\<bar>x / 2 powi (e - 23) - of_int n\<bar> < 1 / 2"
  shows "float32 x = Fin (of_int n * 2 powi (e - 23))"
proof -
  have "(2::rat) powi (e + 1) \<le> 2 powi 127" using assms(4) by (intro power_int_increasing) simp_all
  then have "\<bar>x\<bar> < 2 ^ 127" using assms(2) by simp
  then show ?thesis using round32_near[OF assms(1-3,5)] by (simp add: float32_Fin)
qed

subsection \<open>The program state\<close>

lemma tFactor_loop_eq: "tFactor_loop n w = w * 1000 ^ n"
  by (induction n arbitrary: w) (simp_all add: mult.assoc)

lemma target_state_simps:
  "Waveform (target_state f i) = 0"
  "Frequency (target_state f i) = Fin f"
  "FrequencyFactorTimes1000 (target_state f i) = 1000 ^ nat i"
  "FrequencyFactorIndex (target_state f i) = word_of_int i"
  "driver_calls (target_state f i) = []"
  "DividerInt (target_state f i) = 0"
  "is10HzRange (target_state f i) = True"
  by (simp_all add: target_state_def setFrequencyFactor_def boot_def tFactor_loop_eq)

subsection \<open>The conversion from float to a 32-bit unsigned value\<close>

lemma uint_f2u32_Fin:
  assumes "0 \<le> x" "x < 4294967296"
  shows "uint (f2u32 (Fin x)) = \<lfloor>x\<rfloor>"
proof -
  have "0 \<le> \<lfloor>x\<rfloor>" using assms by simp
  moreover have "\<lfloor>x\<rfloor> < 4294967296" using assms by (simp add: floor_less_iff)
  ultimately have "uint (word_of_int \<lfloor>x\<rfloor> :: 32 word) = \<lfloor>x\<rfloor>"
    by (simp add: uint_word_of_int take_bit_int_eq_self)
  then show ?thesis using assms by simp
qed

lemma word32_less_2_iff: "(w :: 32 word) < 2 \<longleftrightarrow> uint w < 2"
  by (simp add: word_less_def)

subsection \<open>The square-wave path of setWaveformFrequency\<close>

lemma setWaveformFrequency_square:
  assumes "Waveform s = WAVEFORM_SQUARE" "FrequencyFactorTimes1000 s \<noteq> 0"
  shows "setWaveformFrequency tm s =
    Some (f2u32 (tPeriod s) < 2,
      (case tm of
         Timer32 \<Rightarrow> s\<lparr>DividerInt := tPeriodInt s,
                       driver_calls := driver_calls s @ [Synth_Timer32_SetReloadValue (tPeriodInt s)]\<rparr>
       | Timer16 \<Rightarrow>
           s\<lparr>DividerInt := (if 1 < drop_bit 16 (tPeriodInt s) + 1
                              then tPeriodInt s div (drop_bit 16 (tPeriodInt s) + 1)
                              else tPeriodInt s) * (drop_bit 16 (tPeriodInt s) + 1),
             driver_calls := driver_calls s @
               [Synth_Timer16_SetReloadValue
                  (if 1 < drop_bit 16 (tPeriodInt s) + 1
                   then tPeriodInt s div (drop_bit 16 (tPeriodInt s) + 1)
                   else tPeriodInt s)
                  (drop_bit 16 (tPeriodInt s) + 1)]\<rparr>))"
  using assms
  by (simp add: setWaveformFrequency_def tPeriod_def tPeriodInt_def Let_def split: timer.split)

lemma tPeriodInt_ge2: "2 \<le> tPeriodInt s"
  by (simp add: tPeriodInt_def not_less)

subsection \<open>The prescaler of the 16-bit timer\<close>

lemma prescale_nat:
  fixes n :: nat
  assumes "65536 \<le> n"
  shows "32768 \<le> n div (n div 65536 + 1)" and "n div (n div 65536 + 1) < 65536"
proof -
  define a where "a = n div 65536"
  have a1: "1 \<le> a" using assms by (simp add: a_def Suc_le_eq div_greater_zero_iff)
  have lo: "65536 * a \<le> n" by (simp add: a_def)
  have hi: "n < 65536 * (a + 1)" using div_less_iff_less_mult[of 65536 n "a + 1"]
    by (simp add: a_def)
  have "32768 * (a + 1) \<le> 65536 * a" using a1 by simp
  then have "32768 * (a + 1) \<le> n" using lo by linarith
  then show "32768 \<le> n div (n div 65536 + 1)"
    by (simp add: a_def[symmetric] less_eq_div_iff_mult_less_eq)
  show "n div (n div 65536 + 1) < 65536"
    using hi by (simp add: a_def[symmetric] div_less_iff_less_mult mult.commute)
qed

lemma unat_prescaler:
  fixes w :: "32 word"
  shows "unat (drop_bit 16 w + 1) = unat w div 65536 + 1"
proof -
  have d: "unat (drop_bit 16 w) = unat w div 65536"
    unfolding unat_drop_bit_eq by (simp add: drop_bit_eq_div)
  have "unat w < 4294967296" using unsigned_less[of w, where 'a=nat] by simp
  then have "unat w div 65536 < 65536" by (simp add: div_less_iff_less_mult)
  then have "unat (drop_bit 16 w) + unat (1::32 word) < 2 ^ LENGTH(32)"
    using d by simp
  then have "unat (drop_bit 16 w + 1) = unat (drop_bit 16 w) + unat (1::32 word)"
    by (simp only: unat_add_lem[THEN iffD1])
  then show ?thesis using d by simp
qed

lemma reload16_bounds:
  fixes w :: "32 word"
  assumes "2 \<le> w"
  defines "p \<equiv> drop_bit 16 w + 1"
  defines "r \<equiv> (if 1 < p then w div p else w)"
  shows "unat p = unat w div 65536 + 1"
    and "unat r = unat w div unat p"
    and "2 \<le> unat r" and "unat r < 65536"
proof -
  show p: "unat p = unat w div 65536 + 1" by (simp add: p_def unat_prescaler)
  have w2: "2 \<le> unat w" using assms(1) by (simp add: word_le_nat_alt)
  have p1: "1 < p \<longleftrightarrow> 65536 \<le> unat w"
    using p by (simp add: word_less_nat_alt Suc_le_eq div_greater_zero_iff)
  show r: "unat r = unat w div unat p"
  proof (cases "1 < p")
    case True
    then show ?thesis by (simp add: r_def unat_div)
  next
    case False
    then have "unat w < 65536" using p1 by simp
    then have "unat p = 1" using p by simp
    then show ?thesis using False by (simp add: r_def)
  qed
  show "2 \<le> unat r"
  proof (cases "65536 \<le> unat w")
    case True
    from prescale_nat(1)[OF True] show ?thesis using r p by simp
  next
    case False
    then have "unat p = 1" using p by simp
    then show ?thesis using r w2 by simp
  qed
  show "unat r < 65536"
  proof (cases "65536 \<le> unat w")
    case True
    from prescale_nat(2)[OF True] show ?thesis using r p by simp
  next
    case False
    then have "unat p = 1" using p by simp
    then show ?thesis using r False by simp
  qed
qed

lemma reload16_product:
  fixes w :: "32 word"
  assumes "2 \<le> w"
  defines "p \<equiv> drop_bit 16 w + 1"
  defines "r \<equiv> (if 1 < p then w div p else w)"
  shows "unat (r * p) = unat r * unat p"
    and "unat r * unat p \<le> unat w"
    and "unat w < unat r * unat p + unat p"
    and "unat p \<le> 65536"
proof -
  note b = reload16_bounds[OF assms(1), folded p_def r_def]
  have nlt: "unat w < 4294967296"
    using unsigned_less[of w, where 'a=nat] by simp
  then show "unat p \<le> 65536" using b(1) by (simp add: div_less_iff_less_mult Suc_le_eq)
  have p0: "0 < unat p" using b(1) by simp
  show le: "unat r * unat p \<le> unat w" using b(2) by (simp add: div_times_less_eq_dividend)
  have "unat w = unat r * unat p + unat w mod unat p" using b(2) by (simp add: mult.commute)
  moreover have "unat w mod unat p < unat p" using p0 by simp
  ultimately show "unat w < unat r * unat p + unat p" by linarith
  have "unat r * unat p < 2 ^ LENGTH(32)" using le nlt by simp
  then show "unat (r * p) = unat r * unat p"
    by (simp only: unat_mult_lem[THEN iffD1])
qed

lemma setWaveformFrequency_keeps:
  assumes "setWaveformFrequency tm s = Some (e, s')"
  shows "Frequency s' = Frequency s" and "FrequencyFactorIndex s' = FrequencyFactorIndex s"
    and "FrequencyFactorTimes1000 s' = FrequencyFactorTimes1000 s"
    and "Waveform s' = Waveform s" and "is10HzRange s' = is10HzRange s"
  using assms
  by (auto simp: setWaveformFrequency_def Let_def split: if_splits timer.splits)

lemma setWaveformFrequency_returns:
  assumes "FrequencyFactorTimes1000 s \<noteq> 0"
  shows "\<exists>e s'. setWaveformFrequency tm s = Some (e, s')"
  using assms
  by (cases tm) (auto simp: setWaveformFrequency_def Let_def)

lemma setWaveformFrequency_slider:
  "setWaveformFrequency tm (s\<lparr>SliderActualValue := v\<rparr>) =
     map_option (\<lambda>(e, s'). (e, s'\<lparr>SliderActualValue := v\<rparr>)) (setWaveformFrequency tm s)"
  by (cases tm) (simp_all add: setWaveformFrequency_def Let_def)

subsection \<open>Floats of the program\<close>

lemma float32_neg_numeral:
  "(numeral w :: int) < 2 ^ 24 \<Longrightarrow> float32 (- numeral w) = Fin (- numeral w)"
  using float32_of_int[of "- numeral w"] by simp

lemma round32_36000000000: "round32 36000000000 = 35999997952"
proof -
  have "round32 36000000000 = of_int 8789062 * 2 powi (35 - 23)"
    by (rule round32_tie) simp_all
  then show ?thesis by simp
qed

lemma int_to_float_36000000000: "int_to_float 36000000000 = Fin 35999997952"
  using float32_Fin[of 36000000000] by (simp add: int_to_float_def round32_36000000000)

lemma int_to_float_36000000: "int_to_float 36000000 = Fin 36000000"
  using float32_exact[of 9000000 2] by (simp add: int_to_float_def)

lemma int_to_float_36000: "int_to_float 36000 = Fin 36000"
  by (simp add: int_to_float_def float32_numeral)

lemma float32_35999997952: "float32 35999997952 = Fin 35999997952"
  using float32_exact[of 8789062 12] by simp

lemma f2u32_float32_nonpos:
  assumes "x \<le> 0"
  shows "f2u32 (float32 x) = 0"
proof -
  have r: "round32 x \<le> 0" using assms by (rule round32_nonpos)
  then have "\<not> 2 ^ 128 \<le> round32 x" by simp
  then show ?thesis using r by (auto simp: float32_def Let_def)
qed

lemma tPeriodInt_18Hz: "tPeriodInt (target_state 18 1) = 2000000"
  by (simp add: tPeriodInt_def tPeriod_def target_state_simps int_to_float_36000000 float32_numeral)

subsection \<open>The loop of setFrequency\<close>

lemma setFrequency_loop_stop:
  "\<not> fgt aValue (Fin 1000) \<Longrightarrow> setFrequency_loop aValue tIndex = Some (aValue, tIndex)"
  by (subst setFrequency_loop.simps) simp

lemma setFrequency_loop_step:
  "fgt aValue (Fin 1000) \<Longrightarrow>
   setFrequency_loop aValue tIndex = setFrequency_loop (fdiv aValue (Fin 1000)) (tIndex + 1)"
  by (subst setFrequency_loop.simps) simp

lemma setFrequencyFactor_uint:
  "setFrequencyFactor (uint i) s =
     s\<lparr>FrequencyFactorIndex := i, FrequencyFactorTimes1000 := 1000 ^ unat i\<rparr>"
  by (simp add: setFrequencyFactor_def tFactor_loop_eq)

subsection \<open>The page after its initialisation\<close>

lemma init_page:
  "initFrequencyGeneratorPage Timer32 boot =
     Some (boot\<lparr>DividerInt := 180000, Frequency := Fin 200, FrequencyFactorTimes1000 := 1000,
        FrequencyFactorIndex := 1, isOutputEnabled := True,
        driver_calls := [Synth_Timer32_SetReloadValue 180000]\<rparr>)"
proof -
  have l: "setFrequency_loop (Fin 200) 1 = Some (Fin 200, 1)"
    by (simp add: setFrequency_loop_stop fgt_def)
  show ?thesis
    by (simp add: initFrequencyGeneratorPage_def setFrequency_def l setFrequencyFactor_uint
        setWaveformFrequency_def boot_def WAVEFORM_SQUARE_def int_to_float_36000000
        float32_numeral Let_def)
qed

subsection \<open>The decimal logarithm of 5\<close>

lemma log10_5_bounds: "9 / 13 < log 10 5" "log 10 5 < 137 / 196"
proof -
  have a: "log 10 ((5::real) ^ 13) = real 13 * log 10 5" by (rule log_nat_power) simp
  have a': "log 10 ((10::real) ^ 9) = real 9 * log 10 10" by (rule log_nat_power) simp
  have "log 10 ((10::real) ^ 9) < log 10 (5 ^ 13)"
    by (subst log_less_cancel_iff) simp_all
  then have "9 < 13 * log 10 5" unfolding a a' by simp
  then show "9 / 13 < log 10 5" by simp
  have b: "log 10 ((5::real) ^ 196) = real 196 * log 10 5" by (rule log_nat_power) simp
  have b': "log 10 ((10::real) ^ 137) = real 137 * log 10 10" by (rule log_nat_power) simp
  have "log 10 ((5::real) ^ 196) < log 10 (10 ^ 137)"
    by (subst log_less_cancel_iff) simp_all
  then have "196 * log 10 5 < 137" unfolding b b' by simp
  then show "log 10 5 < 137 / 196" by simp
qed

text \<open>
  A float product between two consecutive integers below \<open>2^16\<close> is converted to the
  smaller one.
\<close>

lemma f2u16_float32_between:
  assumes lo: "of_nat n + 1 / 1024 \<le> x" and hi: "x \<le> of_nat n + 1023 / 1024" and n: "n < 512"
  shows "f2u16 (float32 x) = Some (of_nat n)"
proof -
  have x0: "0 < x" using lo by (simp add: add_nonneg_pos order_less_le_trans)
  have xlt: "x < 2 powi (8 + 1)"
  proof -
    have "(of_nat n :: rat) \<le> of_nat 511" using n by (simp only: of_nat_le_iff)
    then show ?thesis using hi by simp
  qed
  have ax: "\<bar>x\<bar> = x" using x0 by simp
  have E: "exponent32 x \<le> 8" using exponent32_le[of x 8] xlt ax by simp
  then have "exponent32 x - 24 \<le> - 16" by simp
  then have "(2::rat) powi (exponent32 x - 24) \<le> 2 powi (- 16)"
    by (intro power_int_increasing) simp_all
  then have err: "\<bar>round32 x - x\<bar> \<le> 1 / 65536"
    using round32_abs_error[of x] by simp
  have fl: "float32 x = Fin (round32 x)"
    using xlt ax by (intro float32_Fin) simp
  have r1: "of_nat n \<le> round32 x" using err lo by linarith
  have r2: "round32 x < of_nat n + 1" using err hi by linarith
  have r0: "0 \<le> round32 x" using r1 by (simp add: order_trans[OF of_nat_0_le_iff])
  have rn: "round32 x < 65536"
  proof -
    have "(of_nat n :: rat) \<le> of_nat 511" using n by (simp only: of_nat_le_iff)
    then show ?thesis using r2 by simp
  qed
  have "of_int (int n) \<le> round32 x" "round32 x < of_int (int n) + 1" using r1 r2 by simp_all
  then have "\<lfloor>round32 x\<rfloor> = int n" by (simp only: floor_eq_iff)
  then show ?thesis using r0 rn by (simp add: fl not_less)
qed

lemma slider_5:
  assumes "log10f_accurate lib"
  shows "f2u16 (fmul (log10f lib (Fin 5)) (Fin 100)) = Some 69"
proof -
  have "\<exists>y. log10f lib (Fin 5) = Fin y \<and>
           \<bar>real_of_rat y - log 10 (real_of_rat 5)\<bar> \<le> 1 / 1024"
    using assms[unfolded log10f_accurate_def, rule_format, of 5] round32_of_int[of 5] by simp
  then obtain y where y: "log10f lib (Fin 5) = Fin y"
    and e: "\<bar>real_of_rat y - log 10 (real_of_rat 5)\<bar> \<le> 1 / 1024"
    by blast
  have e': "\<bar>real_of_rat y - log 10 5\<bar> \<le> 1 / 1024" using e by simp
  have "9 / 13 - 1 / 1024 \<le> real_of_rat y"
    using e' log10_5_bounds(1) by linarith
  then have "real_of_rat (9 / 13 - 1 / 1024) \<le> real_of_rat y"
    by (simp add: of_rat_diff of_rat_divide)
  then have lo: "9 / 13 - 1 / 1024 \<le> y" by (simp only: of_rat_less_eq)
  have "real_of_rat y \<le> 137 / 196 + 1 / 1024"
    using e' log10_5_bounds(2) by linarith
  then have "real_of_rat y \<le> real_of_rat (137 / 196 + 1 / 1024)"
    by (simp add: of_rat_add of_rat_divide)
  then have hi: "y \<le> 137 / 196 + 1 / 1024" by (simp only: of_rat_less_eq)
  have "f2u16 (float32 (y * 100)) = Some (of_nat 69)"
  proof (rule f2u16_float32_between)
    show "of_nat 69 + 1 / 1024 \<le> y * 100" using lo by simp
    show "y * 100 \<le> of_nat 69 + 1023 / 1024" using hi by simp
  qed simp
  then show ?thesis by (simp add: y)
qed

subsection \<open>The library cut off after 35 and 30 binary places\<close>

lemma truncation_error:
  fixes z :: real
  shows "\<bar>real_of_rat (of_int \<lfloor>z * 2 ^ n\<rfloor> / 2 ^ n) - z\<bar> \<le> 1 / 2 ^ n"
proof -
  define k where "k = \<lfloor>z * 2 ^ n\<rfloor>"
  have e: "real_of_rat (of_int k / 2 ^ n) = of_int k / 2 ^ n"
    by (simp add: of_rat_divide of_rat_power)
  have "of_int k \<le> z * 2 ^ n" by (simp add: k_def)
  then have lo: "of_int k / 2 ^ n \<le> z" by (simp add: divide_le_eq)
  have "z * 2 ^ n < of_int k + 1" unfolding k_def by linarith
  then have "z < (of_int k + 1) / 2 ^ n" by (simp add: less_divide_eq)
  then have hi: "z < of_int k / 2 ^ n + 1 / 2 ^ n" by (simp add: add_divide_distrib)
  show ?thesis unfolding k_def[symmetric] e using lo hi by linarith
qed

lemma truncation_range:
  fixes z :: real
  assumes "0 \<le> z" and "z \<le> 5"
  shows "0 \<le> (of_int \<lfloor>z * 2 ^ n\<rfloor> / 2 ^ n :: rat)" and "(of_int \<lfloor>z * 2 ^ n\<rfloor> / 2 ^ n :: rat) \<le> 5"
proof -
  define k where "k = \<lfloor>z * 2 ^ n\<rfloor>"
  have "0 \<le> z * 2 ^ n" using assms(1) by simp
  then have "0 \<le> k" by (simp add: k_def)
  then show "0 \<le> (of_int \<lfloor>z * 2 ^ n\<rfloor> / 2 ^ n :: rat)" by (simp add: k_def)
  have "z * 2 ^ n \<le> of_int (5 * 2 ^ n)" using assms(2) by simp
  then have "\<lfloor>z * 2 ^ n\<rfloor> \<le> \<lfloor>(of_int (5 * 2 ^ n) :: real)\<rfloor>" by (rule floor_mono)
  then have "k \<le> 5 * 2 ^ n" by (simp only: k_def floor_of_int)
  then have "(of_int k :: rat) \<le> of_int (5 * 2 ^ n)" by (simp only: of_int_le_iff)
  then have "(of_int k :: rat) \<le> 5 * 2 ^ n" by simp
  then show "(of_int \<lfloor>z * 2 ^ n\<rfloor> / 2 ^ n :: rat) \<le> 5"
    by (simp add: k_def divide_le_eq)
qed

lemma libm_truncating_log10f: "log10f_accurate libm_truncating"
  unfolding log10f_accurate_def
proof (intro allI impI)
  fix x :: rat
  assume x: "round32 x = x \<and> 1 \<le> x \<and> x \<le> 100000"
  define L where "L = log 10 (real_of_rat x)"
  define z :: rat where "z = of_int \<lfloor>L * 2 ^ 30\<rfloor> / 2 ^ 30"
  have "real_of_rat 1 \<le> real_of_rat x" "real_of_rat x \<le> real_of_rat 100000"
    using x by (simp_all only: of_rat_less_eq)
  then have xr: "1 \<le> real_of_rat x" "real_of_rat x \<le> 100000" by simp_all
  have L0: "0 \<le> L" using xr(1) by (simp add: L_def)
  have "log 10 (real_of_rat x) \<le> log 10 100000"
    using xr by (subst log_le_cancel_iff) simp_all
  moreover have "log 10 100000 = 5"
  proof -
    have "log 10 ((10::real) ^ 5) = real 5 * log 10 10" by (rule log_nat_power) simp
    then show ?thesis by simp
  qed
  ultimately have L5: "L \<le> 5" by (simp add: L_def)
  note zr = truncation_range[OF L0 L5, of 30, folded z_def]
  have az: "\<bar>z\<bar> < 2 powi (2 + 1)" using zr by simp
  then have "\<bar>z\<bar> < 2 ^ 127" by simp
  then have fl: "float32 z = Fin (round32 z)" by (rule float32_Fin)
  have "exponent32 z \<le> 2" using az by (rule exponent32_le) simp
  then have "exponent32 z - 24 \<le> - 22" by simp
  then have "(2::rat) powi (exponent32 z - 24) \<le> 2 powi (- 22)"
    by (intro power_int_increasing) simp_all
  then have "\<bar>round32 z - z\<bar> \<le> 1 / 4194304"
    using round32_abs_error[of z] by (simp add: power_int_minus_left)
  then have "real_of_rat \<bar>round32 z - z\<bar> \<le> real_of_rat (1 / 4194304)"
    by (simp only: of_rat_less_eq)
  then have r: "\<bar>real_of_rat (round32 z) - real_of_rat z\<bar> \<le> 1 / 4194304"
    by (simp add: of_rat_diff of_rat_divide abs_if of_rat_minus of_rat_less split: if_splits)
  have "\<bar>real_of_rat z - L\<bar> \<le> 1 / 2 ^ 30"
    unfolding z_def by (rule truncation_error)
  then have "\<bar>real_of_rat z - L\<bar> \<le> 1 / 1073741824" by simp
  then have "\<bar>real_of_rat (round32 z) - L\<bar> \<le> 1 / 1024" using r by linarith
  moreover have "log10f libm_truncating (Fin x) = Fin (round32 z)"
    using x fl by (simp add: libm_truncating_def z_def L_def)
  ultimately show "\<exists>y. log10f libm_truncating (Fin x) = Fin y \<and>
      \<bar>real_of_rat y - log 10 (real_of_rat x)\<bar> \<le> 1 / 1024"
    unfolding L_def by blast
qed

lemma libm_truncating_log10f_10: "log10f libm_truncating (Fin 10) = Fin 1"
  by (simp add: libm_truncating_def float32_1)

lemma libm_truncating_pow: "pow_accurate libm_truncating"
  unfolding pow_accurate_def
proof (intro allI impI)
  fix t :: rat
  assume t: "round32 t = t \<and> 0 \<le> t \<and> t \<le> 5"
  define z where "z = (10::real) powr real_of_rat t"
  have z1: "1 \<le> z" using t by (simp add: z_def ge_one_powr_ge_zero)
  have "\<bar>real_of_rat (of_int \<lfloor>z * 2 ^ 35\<rfloor> / 2 ^ 35) - z\<bar> \<le> 1 / 2 ^ 35"
    by (rule truncation_error)
  also have "\<dots> \<le> z / 2 ^ 30" using z1 by simp
  finally have "\<bar>real_of_rat (of_int \<lfloor>z * 2 ^ 35\<rfloor> / 2 ^ 35) - z\<bar> \<le> z / 2 ^ 30" .
  moreover have "pow libm_truncating (Fin 10) (Fin t) = Fin (of_int \<lfloor>z * 2 ^ 35\<rfloor> / 2 ^ 35)"
    by (simp add: libm_truncating_def z_def)
  ultimately show "\<exists>p. pow libm_truncating (Fin 10) (Fin t) = Fin p \<and>
      \<bar>real_of_rat p - 10 powr real_of_rat t\<bar> \<le> 10 powr real_of_rat t / 2 ^ 30"
    unfolding z_def by blast
qed

subsection \<open>The float period\<close>

lemma tPeriod_Fin:
  assumes fr: "Frequency s = Fin t" and t: "t \<noteq> 0"
    and x: "x = round32 (round32 (of_int (36000000000 div uint (FrequencyFactorTimes1000 s))) / t)"
    and fits: "\<bar>x\<bar> < 2 ^ 128"
  shows "tPeriod s = Fin x"
proof -
  define K where "K = 36000000000 div uint (FrequencyFactorTimes1000 s)"
  have K0: "0 \<le> K" by (simp add: K_def div_int_pos_iff)
  have "K \<le> 36000000000"
  proof (cases "uint (FrequencyFactorTimes1000 s) = 0")
    case True
    then show ?thesis by (simp add: K_def)
  next
    case False
    then have "1 \<le> uint (FrequencyFactorTimes1000 s)"
      using uint_ge_0[of "FrequencyFactorTimes1000 s"] by linarith
    then have "36000000000 div uint (FrequencyFactorTimes1000 s) \<le> 36000000000 div 1"
      by (intro zdiv_mono2) simp_all
    then show ?thesis by (simp add: K_def)
  qed
  then have "(of_int K :: rat) \<le> of_int 36000000000" by (simp only: of_int_le_iff)
  moreover have "(0::rat) \<le> of_int K" using K0 by simp
  ultimately have "\<bar>of_int K :: rat\<bar> < 2 ^ 127" by simp
  then have q: "int_to_float K = Fin (round32 (of_int K))"
    by (simp add: int_to_float_def float32_Fin)
  have "float32 (round32 (of_int K) / t) = Fin x"
    using fits by (simp add: float32_def Let_def x K_def[symmetric] abs_less_iff not_le)
  then show ?thesis
    using t by (simp add: tPeriod_def K_def[symmetric] q fr)
qed

lemma round32_36000000: "round32 36000000 = 36000000"
  using round32_exact[of 9000000 2] by simp

lemma round32_9_5: "round32 (9 / 5) = 15099494 / 8388608"
proof -
  have "round32 (9 / 5) = of_int 15099494 * 2 powi (0 - 23)"
    by (rule round32_near) simp_all
  then show ?thesis by simp
qed

lemma round32_10mHz: "round32 (35999997952 / 10) = 3599999744"
proof -
  have "round32 (35999997952 / 10) = of_int 14062499 * 2 powi (31 - 23)"
    by (rule round32_near) simp_all
  then show ?thesis by simp
qed

lemma tPeriod_10mHz: "tPeriod (target_state 10 0) = Fin 3599999744"
proof (rule tPeriod_Fin)
  show "Frequency (target_state 10 0) = Fin 10" by (simp add: target_state_simps)
  show "(10::rat) \<noteq> 0" by simp
  show "(3599999744::rat) = round32 (round32 (of_int (36000000000 div
      uint (FrequencyFactorTimes1000 (target_state 10 0)))) / 10)"
    using round32_10mHz by (simp add: target_state_simps round32_36000000000)
  show "\<bar>3599999744 :: rat\<bar> < 2 ^ 128" by simp
qed

subsection \<open>The divisions of the loop\<close>

lemma div1000_Suc: "div1000 (Suc k) f = round32 (div1000 k f / 1000)"
  by (induction k arbitrary: f) simp_all

lemma fdiv_1000:
  assumes "\<bar>f\<bar> < 2 ^ 127"
  shows "fdiv (Fin f) (Fin 1000) = Fin (round32 (f / 1000))"
proof -
  have "\<bar>f / 1000\<bar> \<le> \<bar>f\<bar>" by simp
  then have "\<bar>f / 1000\<bar> < 2 ^ 127" using assms by linarith
  then show ?thesis by (simp add: float32_Fin)
qed

lemma setFrequency_loop_div1000:
  "(\<forall>j<k. 1000 < div1000 j f \<and> div1000 j f < 2 ^ 127) \<Longrightarrow> div1000 k f \<le> 1000 \<Longrightarrow>
   setFrequency_loop (Fin f) i = Some (Fin (div1000 k f), i + of_nat k)"
proof (induction k arbitrary: f i)
  case 0
  then have "\<not> fgt (Fin f) (Fin 1000)" by (simp add: fgt_def)
  then show ?case by (simp add: setFrequency_loop_stop)
next
  case (Suc k)
  from Suc.prems(1) have "1000 < div1000 0 f \<and> div1000 0 f < 2 ^ 127" by blast
  then have gt: "1000 < f" and lt: "f < 2 ^ 127" by simp_all
  have af: "\<bar>f\<bar> < 2 ^ 127" using gt lt by simp
  have nx: "\<forall>j<k. 1000 < div1000 j (round32 (f / 1000)) \<and> div1000 j (round32 (f / 1000)) < 2 ^ 127"
  proof (intro allI impI)
    fix j assume "j < k"
    then have "Suc j < Suc k" by simp
    with Suc.prems(1) have "1000 < div1000 (Suc j) f \<and> div1000 (Suc j) f < 2 ^ 127" by blast
    then show "1000 < div1000 j (round32 (f / 1000)) \<and> div1000 j (round32 (f / 1000)) < 2 ^ 127"
      by simp
  qed
  have le: "div1000 k (round32 (f / 1000)) \<le> 1000" using Suc.prems(2) by simp
  have "setFrequency_loop (Fin f) i = setFrequency_loop (Fin (round32 (f / 1000))) (i + 1)"
    using gt by (simp add: setFrequency_loop_step fgt_def fdiv_1000[OF af] del: fdiv.simps)
  also have "\<dots> = Some (Fin (div1000 k (round32 (f / 1000))), i + 1 + of_nat k)"
    by (rule Suc.IH[OF nx le])
  finally show ?case by (simp add: add.assoc add.commute)
qed

text \<open>
  Each division by 1000 of a value above 1000 misses the exact quotient by at most one
  part in \<open>2^24\<close>.
\<close>

lemma div1000_upper:
  "(\<forall>j<n. 1000 < div1000 j f) \<Longrightarrow> div1000 n f \<le> f * ((1 + 1 / 2 ^ 24) / 1000) ^ n"
proof (induction n)
  case 0
  show ?case by simp
next
  case (Suc n)
  define c :: rat where "c = (1 + 1 / 2 ^ 24) / 1000"
  have c0: "0 \<le> c" by (simp add: c_def)
  define x where "x = div1000 n f"
  have x: "1000 < x" using Suc.prems by (simp add: x_def)
  have ih: "x \<le> f * c ^ n"
    unfolding x_def c_def using Suc.prems by (intro Suc.IH) simp
  have "(2::rat) powi (- 126) \<le> 1" by (simp add: power_int_minus_left)
  then have n: "2 powi (- 126) \<le> \<bar>x / 1000\<bar>" using x by simp
  have "round32 (x / 1000) \<le> x / 1000 + \<bar>x / 1000\<bar> / 2 ^ 24"
    using round32_rel_error[OF n] by linarith
  also have "\<dots> = x * c" using x by (simp add: c_def field_simps)
  also have "\<dots> \<le> f * c ^ n * c"
    using ih c0 by (intro mult_right_mono)
  finally have "round32 (x / 1000) \<le> f * c ^ Suc n" by (simp add: mult_ac)
  then show ?case unfolding div1000_Suc x_def c_def .
qed

lemma div1000_lower:
  "1 \<le> f * ((1 - 1 / 2 ^ 24) / 1000) ^ n \<Longrightarrow> j \<le> n \<Longrightarrow>
   f * ((1 - 1 / 2 ^ 24) / 1000) ^ j \<le> div1000 j f"
proof (induction j)
  case 0
  show ?case by simp
next
  case (Suc j)
  define d :: rat where "d = (1 - 1 / 2 ^ 24) / 1000"
  have d0: "0 < d" and d1: "d \<le> 1" by (simp_all add: d_def)
  define x where "x = div1000 j f"
  have f0: "0 < f"
  proof (rule ccontr)
    assume "\<not> 0 < f"
    then have "f * d ^ n \<le> 0" using d0 by (simp add: mult_le_0_iff)
    then show False using Suc.prems(1) by (simp add: d_def)
  qed
  have ih: "f * d ^ j \<le> x"
    unfolding x_def d_def using Suc.prems by (intro Suc.IH) simp_all
  have "d ^ n \<le> d ^ Suc j" using Suc.prems(2) d0 d1 by (intro power_decreasing) simp_all
  then have "f * d ^ n \<le> f * d ^ Suc j" using f0 by simp
  then have "1 \<le> f * d ^ j * d" using Suc.prems(1) by (simp add: d_def mult.assoc)
  also have "\<dots> \<le> x * d" using ih d0 by (intro mult_right_mono) simp_all
  finally have xd: "1 \<le> x * d" .
  have "x * d \<le> x / 1000"
  proof -
    have "0 < f * d ^ j" using f0 d0 by simp
    then have "0 \<le> x" using ih by linarith
    then show ?thesis by (simp add: d_def field_simps)
  qed
  then have x1: "1 \<le> x / 1000" using xd by linarith
  have "(2::rat) powi (- 126) \<le> 1" by (simp add: power_int_minus_left)
  then have n: "2 powi (- 126) \<le> \<bar>x / 1000\<bar>" using x1 by simp
  have "x / 1000 - \<bar>x / 1000\<bar> / 2 ^ 24 \<le> round32 (x / 1000)"
    using round32_rel_error[OF n] by linarith
  moreover have "x / 1000 - \<bar>x / 1000\<bar> / 2 ^ 24 = x * d"
    using x1 by (simp add: d_def field_simps)
  moreover have "f * d ^ j * d \<le> x * d" using ih d0 by (intro mult_right_mono) simp_all
  ultimately have "f * d ^ Suc j \<le> round32 (x / 1000)" by (simp add: mult_ac)
  then show ?case unfolding div1000_Suc x_def d_def .
qed

lemma div1000_ge_1:
  assumes "\<forall>j<k. 1000 < div1000 j f" and "1 \<le> f"
  shows "1 \<le> div1000 k f"
proof (cases k)
  case 0
  then show ?thesis using assms(2) by simp
next
  case (Suc m)
  then have "1000 < div1000 m f" using assms(1) by simp
  then have "2 powi 0 \<le> div1000 m f / 1000" by simp
  then have "2 powi 0 \<le> round32 (div1000 m f / 1000)" by (rule round32_ge_powi) simp
  then show ?thesis unfolding Suc div1000_Suc by simp
qed

text \<open>Up to \<open>999999 * 10^24\<close> the loop ends after at most nine divisions.\<close>

lemma decade_exists:
  assumes "f \<le> 999999 * 10 ^ 24"
  shows "\<exists>k\<le>9. (\<forall>j<k. 1000 < div1000 j f) \<and> div1000 k f \<le> 1000"
proof -
  have "\<exists>n\<le>9. div1000 n f \<le> 1000"
  proof (rule ccontr)
    assume "\<not> (\<exists>n\<le>9. div1000 n f \<le> 1000)"
    then have all: "\<forall>n\<le>9. 1000 < div1000 n f" by (meson not_le)
    then have "\<forall>j<9. 1000 < div1000 j f" by simp
    then have "div1000 9 f \<le> f * ((1 + 1 / 2 ^ 24) / 1000) ^ 9" by (rule div1000_upper)
    also have "\<dots> \<le> (999999 * 10 ^ 24) * ((1 + 1 / 2 ^ 24) / 1000) ^ 9"
      using assms by (intro mult_right_mono) simp_all
    also have "\<dots> \<le> 1000" by (simp add: power_divide)
    finally have "div1000 9 f \<le> 1000" .
    with all show False by (simp add: not_le[symmetric])
  qed
  then obtain n where n: "n \<le> 9" "div1000 n f \<le> 1000" by blast
  from ex_least_nat_le[of "\<lambda>k. div1000 k f \<le> 1000", OF n(2)]
  obtain k where "k \<le> n" "\<forall>i<k. \<not> div1000 i f \<le> 1000" "div1000 k f \<le> 1000" by blast
  then have "k \<le> 9 \<and> (\<forall>j<k. 1000 < div1000 j f) \<and> div1000 k f \<le> 1000"
    using n(1) by (simp add: not_le)
  then show ?thesis by blast
qed

lemma div1000_bounded:
  assumes "\<forall>j<k. 1000 < div1000 j f" and "f < 2 ^ 127"
  shows "\<forall>j<k. 1000 < div1000 j f \<and> div1000 j f < 2 ^ 127"
proof (intro allI impI)
  fix j assume j: "j < k"
  then have "\<forall>i<j. 1000 < div1000 i f" using assms(1) by simp
  then have "div1000 j f \<le> f * ((1 + 1 / 2 ^ 24) / 1000) ^ j" by (rule div1000_upper)
  moreover have "0 < f" 
  proof (cases k)
    case 0 then show ?thesis using j by simp
  next
    case (Suc m)
    then have "1000 < div1000 0 f" using assms(1) by blast
    then show ?thesis by simp
  qed
  moreover have "((1 + 1 / 2 ^ 24) / 1000 :: rat) ^ j \<le> 1"
    by (intro power_le_one) simp_all
  ultimately have "div1000 j f \<le> f"
    by (meson mult_left_le order_less_imp_le order_trans)
  then show "1000 < div1000 j f \<and> div1000 j f < 2 ^ 127" using assms j by simp
qed

lemma factor_nonzero: "n \<le> 10 \<Longrightarrow> (1000 :: 32 word) ^ n \<noteq> 0"
proof -
  assume "n \<le> 10"
  then have "n \<in> set [0..<11]" by simp
  moreover have "\<forall>m \<in> set [0..<11]. (1000 :: 32 word) ^ m \<noteq> 0"
    by code_simp
  ultimately show ?thesis by blast
qed

lemma unat_factor: "unat ((1000 :: 32 word) ^ n) = 1000 ^ n mod 2 ^ 32"
proof -
  have "(1000 :: 32 word) ^ n = of_nat (1000 ^ n)" by simp
  then show ?thesis by (simp only: unat_of_nat) simp
qed

lemma setFrequency_square:
  assumes sq: "Waveform s = WAVEFORM_SQUARE"
    and lp: "setFrequency_loop aValue 1 = Some (v, i)"
    and fac: "(1000 :: 32 word) ^ unat (if flt v (Fin 1) then 0 else i) \<noteq> 0"
  shows "\<exists>s'. setFrequency tm aValue s = Some s' \<and>
           Frequency s' = (if flt v (Fin 1) then fmul v (Fin 1000) else v) \<and>
           FrequencyFactorIndex s' = (if flt v (Fin 1) then 0 else i) \<and>
           FrequencyFactorTimes1000 s' = 1000 ^ unat (if flt v (Fin 1) then 0 else i)"
proof -
  define v' where "v' = (if flt v (Fin 1) then fmul v (Fin 1000) else v)"
  define i' where "i' = (if flt v (Fin 1) then 0 else i)"
  define s1 where "s1 = (setFrequencyFactor (uint i') s)\<lparr>Frequency := v'\<rparr>"
  have s1f: "FrequencyFactorTimes1000 s1 = 1000 ^ unat i'" "FrequencyFactorIndex s1 = i'"
    "Frequency s1 = v'"
    by (simp_all add: s1_def setFrequencyFactor_uint)
  have "FrequencyFactorTimes1000 s1 \<noteq> 0" using fac by (simp add: s1f i'_def)
  from setWaveformFrequency_returns[OF this, of tm]
  obtain e s' where r: "setWaveformFrequency tm s1 = Some (e, s')" by blast
  have "setFrequency tm aValue s = Some s'"
  proof (cases "flt v (Fin 1)")
    case True
    with sq lp r show ?thesis
      by (simp add: setFrequency_def s1_def v'_def i'_def del: fmul.simps)
  next
    case False
    with sq lp r show ?thesis by (simp add: setFrequency_def s1_def v'_def i'_def)
  qed
  moreover note setWaveformFrequency_keeps(1-3)[OF r]
  ultimately show ?thesis
    by (simp add: s1f v'_def[symmetric] i'_def[symmetric])
qed

lemma div1000_stop_unique:
  assumes "\<forall>j<k. 1000 < div1000 j f" "div1000 k f \<le> 1000"
    and "\<forall>j<m. 1000 < div1000 j f" "div1000 m f \<le> 1000"
  shows "k = m"
proof (rule ccontr)
  assume "k \<noteq> m"
  then consider "k < m" | "m < k" by linarith
  then show False
  proof cases
    case 1
    then have "1000 < div1000 k f" using assms(3) by blast
    then show False using assms(2) by simp
  next
    case 2
    then have "1000 < div1000 m f" using assms(1) by blast
    then show False using assms(4) by simp
  qed
qed

subsection \<open>The error of the integer period\<close>

text \<open>
  The frequency recomputed from the integer period \<open>m = r * p\<close>, with the three roundings
  of the code: of the quotient that gave the period, of the period converted to float,
  and of the recomputed quotient.
\<close>

lemma rel_bounds:
  fixes a y :: rat
  assumes "0 < a" and "\<bar>y - a\<bar> \<le> \<bar>a\<bar> / 2 ^ 24"
  shows "a * (1 - 1 / 2 ^ 24) \<le> y" and "y \<le> a * (1 + 1 / 2 ^ 24)"
proof -
  define d where "d = a / 2 ^ 24"
  have "\<bar>y - a\<bar> \<le> d" using assms by (simp add: d_def)
  then have "a - d \<le> y" "y \<le> a + d" by linarith+
  moreover have "a * (1 - 1 / 2 ^ 24) = a - d" "a * (1 + 1 / 2 ^ 24) = a + d"
    by (simp_all add: d_def algebra_simps)
  ultimately show "a * (1 - 1 / 2 ^ 24) \<le> y" and "y \<le> a * (1 + 1 / 2 ^ 24)"
    by simp_all
qed

lemma quantization:
  fixes q t x R w :: rat and m r p :: nat
  assumes t: "0 < t" and q: "0 < q"
    and ex: "\<bar>x - q / t\<bar> \<le> \<bar>q / t\<bar> / 2 ^ 24"
    and eR: "\<bar>R - of_nat m\<bar> \<le> \<bar>of_nat m\<bar> / 2 ^ 24"
    and ew: "\<bar>w - q / R\<bar> \<le> \<bar>q / R\<bar> / 2 ^ 24"
    and m: "m = r * p" and r: "2 \<le> r" and p: "0 < p"
    and lo: "of_nat m \<le> x" and hi: "x < of_nat m + of_nat p"
  shows "\<bar>w - t\<bar> / t \<le> 1 / of_nat r + 1 / 2 ^ 21"
proof -
  define u :: rat where "u = 1 / 2 ^ 24"
  define M :: rat where "M = of_nat m"
  define P :: rat where "P = of_nat p"
  define z :: rat where "z = 1 / of_nat r"
  have u0: "0 < u" and u1: "u < 1" by (simp_all add: u_def)
  have M0: "0 < M" using m r p by (simp add: M_def)
  have P0: "0 < P" using p by (simp add: P_def)
  have z0: "0 < z" and z2: "z \<le> 1 / 2"
  proof -
    show "0 < z" using r by (simp add: z_def)
    have "(2::rat) \<le> of_nat r" using r by (metis of_nat_le_iff of_nat_numeral)
    then show "z \<le> 1 / 2" by (simp add: z_def field_simps)
  qed
  have PM: "P = z * M" using r p by (simp add: P_def M_def z_def m)
  have a0: "0 < q / t" using q t by simp
  have xa: "q / t * (1 - u) \<le> x" "x \<le> q / t * (1 + u)"
    unfolding u_def using rel_bounds[OF a0 ex] by blast+
  have RL: "M * (1 - u) \<le> R" and RU: "R \<le> M * (1 + u)"
    unfolding u_def using rel_bounds[OF M0 eR[folded M_def]] by blast+
  have R0: "0 < R"
  proof -
    have "0 < M * (1 - u)" using M0 u1 by (intro mult_pos_pos) simp_all
    then show ?thesis using RL by linarith
  qed
  have b0: "0 < q / R" using q R0 by simp
  have wb: "q / R * (1 - u) \<le> w" "w \<le> q / R * (1 + u)"
    unfolding u_def using rel_bounds[OF b0 ew] by blast+
  have w0: "0 < w"
  proof -
    have "0 < q / R * (1 - u)" using b0 u1 by (intro mult_pos_pos) simp_all
    then show ?thesis using wb(1) by linarith
  qed
  have t0: "t \<noteq> 0" and Rn: "R \<noteq> 0" using t R0 by simp_all
  have x1: "q * (1 - u) \<le> x * t"
  proof -
    have e: "q / t * (1 - u) * t = q * (1 - u)" using t0 by simp
    have "q / t * (1 - u) * t \<le> x * t" using xa(1) t by (intro mult_right_mono) simp_all
    then show ?thesis unfolding e .
  qed
  have x2: "x * t \<le> q * (1 + u)"
  proof -
    have e: "q / t * (1 + u) * t = q * (1 + u)" using t0 by simp
    have "x * t \<le> q / t * (1 + u) * t" using xa(2) t by (intro mult_right_mono) simp_all
    then show ?thesis unfolding e .
  qed
  have w1: "q * (1 - u) \<le> w * R"
  proof -
    have e: "q / R * (1 - u) * R = q * (1 - u)" using Rn by simp
    have "q / R * (1 - u) * R \<le> w * R" using wb(1) R0 by (intro mult_right_mono) simp_all
    then show ?thesis unfolding e .
  qed
  have w2: "w * R \<le> q * (1 + u)"
  proof -
    have e: "q / R * (1 + u) * R = q * (1 + u)" using Rn by simp
    have "w * R \<le> q / R * (1 + u) * R" using wb(2) R0 by (intro mult_right_mono) simp_all
    then show ?thesis unfolding e .
  qed
  have "w * (M * (1 - u)) \<le> w * R" using RL w0 by (intro mult_left_mono) simp_all
  then have "w * (M * (1 - u)) \<le> q * (1 + u)" using w2 by linarith
  then have "w * (M * (1 - u)) * (1 - u) \<le> q * (1 + u) * (1 - u)"
    using u1 by (intro mult_right_mono) simp_all
  moreover have "q * (1 - u) * (1 + u) \<le> x * t * (1 + u)"
    using x1 u0 by (intro mult_right_mono) simp_all
  moreover have "x * t * (1 + u) \<le> (M + P) * t * (1 + u)"
    using hi t u0 by (intro mult_right_mono) (simp_all add: M_def P_def)
  ultimately have U: "w * (M * (1 - u)) * (1 - u) \<le> (M + P) * t * (1 + u)"
    by (simp add: mult.assoc mult.commute mult.left_commute)
  have "w * ((1 - u) * (1 - u)) * M \<le> t * ((1 + z) * (1 + u)) * M"
    using U by (simp add: PM algebra_simps)
  then have U': "w * ((1 - u) * (1 - u)) \<le> t * ((1 + z) * (1 + u))"
    using M0 by (simp only: mult_le_cancel_right_pos)
  have num1: "(1 + z) * (1 + u) \<le> (1 + z + 8 * u) * ((1 - u) * (1 - u))"
  proof -
    have "(3 / 2) * ((1 + u) - (1 - u) * (1 - u)) \<le> 8 * u * ((1 - u) * (1 - u))"
      by (simp add: u_def)
    moreover have "(1 + z) * ((1 + u) - (1 - u) * (1 - u)) \<le> (3 / 2) * ((1 + u) - (1 - u) * (1 - u))"
      using z2 by (intro mult_right_mono) (simp_all add: u_def)
    ultimately have "(1 + z) * ((1 + u) - (1 - u) * (1 - u)) \<le> 8 * u * ((1 - u) * (1 - u))"
      by linarith
    then show ?thesis by (simp add: algebra_simps)
  qed
  have "w * ((1 - u) * (1 - u)) \<le> t * (1 + z + 8 * u) * ((1 - u) * (1 - u))"
  proof -
    have "t * ((1 + z) * (1 + u)) \<le> t * ((1 + z + 8 * u) * ((1 - u) * (1 - u)))"
      using num1 t by (intro mult_left_mono) simp_all
    then show ?thesis using U' by (simp add: mult.assoc)
  qed
  moreover have "0 < (1 - u) * (1 - u)" using u1 by simp
  ultimately have up: "w \<le> t * (1 + z + 8 * u)"
    by (simp only: mult_le_cancel_right_pos)
  have "w * R \<le> w * (M * (1 + u))" using RU w0 by (intro mult_left_mono) simp_all
  then have "q * (1 - u) \<le> w * (M * (1 + u))" using w1 by linarith
  then have "q * (1 - u) * (1 + u) \<le> w * (M * (1 + u)) * (1 + u)"
    using u0 by (intro mult_right_mono) simp_all
  moreover have "M * t * (1 - u) \<le> x * t * (1 - u)"
    using lo t u1 by (intro mult_right_mono) (simp_all add: M_def)
  moreover have "x * t * (1 - u) \<le> q * (1 + u) * (1 - u)"
    using x2 u1 by (intro mult_right_mono) simp_all
  ultimately have "M * t * (1 - u) \<le> w * (M * (1 + u)) * (1 + u)"
    by (simp add: mult.assoc mult.commute mult.left_commute)
  then have "t * (1 - u) * M \<le> w * ((1 + u) * (1 + u)) * M"
    by (simp add: algebra_simps)
  then have L': "t * (1 - u) \<le> w * ((1 + u) * (1 + u))"
    using M0 by (simp only: mult_le_cancel_right_pos)
  have num2: "(1 - 8 * u) * ((1 + u) * (1 + u)) \<le> 1 - u" by (simp add: u_def)
  have "t * (1 - 8 * u) * ((1 + u) * (1 + u)) \<le> w * ((1 + u) * (1 + u))"
  proof -
    have "t * ((1 - 8 * u) * ((1 + u) * (1 + u))) \<le> t * (1 - u)"
      using num2 t by (intro mult_left_mono) simp_all
    then show ?thesis using L' by (simp add: mult.assoc)
  qed
  moreover have "0 < (1 + u) * (1 + u)" using u0 by simp
  ultimately have "t * (1 - 8 * u) \<le> w"
    by (simp only: mult_le_cancel_right_pos)
  moreover have "t * (1 - z - 8 * u) \<le> t * (1 - 8 * u)"
    using t z0 by (intro mult_left_mono) simp_all
  ultimately have dn: "t * (1 - z - 8 * u) \<le> w" by linarith
  have "\<bar>w - t\<bar> \<le> t * (z + 8 * u)"
    using up dn by (simp add: abs_le_iff algebra_simps)
  then have "\<bar>w - t\<bar> / t \<le> z + 8 * u"
    using t by (simp add: pos_divide_le_eq mult.commute)
  then show ?thesis by (simp add: z_def u_def)
qed

lemma quotient_ge_8:
  fixes w :: "32 word"
  assumes "w \<noteq> 0"
  shows "8 \<le> 36000000000 div uint w" and "36000000000 div uint w \<le> 36000000000"
proof -
  have "uint w \<noteq> 0" using assms by (simp add: uint_0_iff)
  then have pos: "0 < uint w" using uint_ge_0[of w] by linarith
  have "uint w < 4294967296" using uint_bounded[of w] by simp
  then have "uint w \<le> 4294967295" by simp
  then have "36000000000 div 4294967295 \<le> 36000000000 div uint w"
    using pos by (intro zdiv_mono2) simp_all
  then show "8 \<le> 36000000000 div uint w" by simp
  have "1 \<le> uint w" using pos by simp
  then have "36000000000 div uint w \<le> 36000000000 div 1"
    by (intro zdiv_mono2) simp_all
  then show "36000000000 div uint w \<le> 36000000000" by simp
qed

lemma int_to_float_quotient:
  fixes w :: "32 word"
  assumes "w \<noteq> 0"
  defines "q \<equiv> round32 (of_int (36000000000 div uint w))"
  shows "int_to_float (36000000000 div uint w) = Fin q" and "8 \<le> q" and "q \<le> 2 ^ 36"
proof -
  define K where "K = 36000000000 div uint w"
  note b = quotient_ge_8[OF assms(1), folded K_def]
  have lo: "(8::rat) \<le> of_int K" using b(1) by (metis of_int_le_iff of_int_numeral)
  have hi: "(of_int K :: rat) \<le> 36000000000" using b(2) by (metis of_int_le_iff of_int_numeral)
  have ab: "\<bar>of_int K :: rat\<bar> = of_int K" using lo by simp
  have "\<bar>of_int K :: rat\<bar> < 2 ^ 127" using hi ab by simp
  then show "int_to_float (36000000000 div uint w) = Fin q"
    by (simp add: int_to_float_def float32_Fin q_def K_def)
  have "(2::rat) powi 3 \<le> of_int K" using lo by simp
  then have "2 powi 3 \<le> round32 (of_int K)" by (rule round32_ge_powi) simp
  then show "8 \<le> q" by (simp add: q_def K_def)
  have "\<bar>of_int K :: rat\<bar> < 2 powi (35 + 1)" using hi ab by simp
  then have "\<bar>round32 (of_int K)\<bar> \<le> 2 powi (35 + 1)" by (rule round32_bound) simp
  then show "q \<le> 2 ^ 36" by (simp add: q_def K_def)
qed

lemma u32_to_float_Fin:
  fixes w :: "32 word"
  assumes "2 \<le> unat w"
  defines "R \<equiv> round32 (of_nat (unat w))"
  shows "u32_to_float w = Fin R" and "2 \<le> R" and "R \<le> 2 ^ 32"
    and "\<bar>R - of_nat (unat w)\<bar> \<le> \<bar>of_nat (unat w)\<bar> / 2 ^ 24"
proof -
  define m :: rat where "m = of_nat (unat w)"
  have "unat w < 4294967296" using unsigned_less[of w, where 'a=nat] by simp
  then have "(of_nat (unat w) :: rat) < of_nat 4294967296" by (simp only: of_nat_less_iff)
  then have hi: "m < 4294967296" by (simp add: m_def)
  have "(of_nat 2 :: rat) \<le> of_nat (unat w)" using assms(1) by (simp only: of_nat_le_iff)
  then have lo: "2 \<le> m" by (simp add: m_def)
  have ab: "\<bar>m\<bar> = m" using lo by simp
  have "\<bar>m\<bar> < 2 ^ 127" using hi ab by simp
  then show "u32_to_float w = Fin R"
    by (simp add: u32_to_float_def float32_Fin R_def m_def)
  have "2 powi 1 \<le> m" using lo by simp
  then have "2 powi 1 \<le> round32 m" by (rule round32_ge_powi) simp
  then show "2 \<le> R" by (simp add: R_def m_def)
  have "\<bar>m\<bar> < 2 powi (31 + 1)" using hi ab by simp
  then have "\<bar>round32 m\<bar> \<le> 2 powi (31 + 1)" by (rule round32_bound) simp
  then show "R \<le> 2 ^ 32" by (simp add: R_def m_def)
  have "(2::rat) powi (- 126) \<le> 1" by (simp add: power_int_minus_left)
  then have "2 powi (- 126) \<le> \<bar>m\<bar>" using lo ab by linarith
  then show "\<bar>R - of_nat (unat w)\<bar> \<le> \<bar>of_nat (unat w)\<bar> / 2 ^ 24"
    unfolding R_def m_def[symmetric] by (rule round32_rel_error)
qed

lemma tPeriodInt_ticks:
  assumes fr: "Frequency s = Fin t" and pos: "0 < t"
    and ticks: "ticks = \<lfloor>round32 (round32 (of_int (36000000000 div
        uint (FrequencyFactorTimes1000 s))) / t)\<rfloor>"
    and lo: "2 \<le> ticks" and hi: "ticks < 4294967296"
  shows "\<not> f2u32 (tPeriod s) < 2" and "unat (tPeriodInt s) = nat ticks"
proof -
  define x where "x = round32 (round32 (of_int (36000000000 div
        uint (FrequencyFactorTimes1000 s))) / t)"
  have tk: "ticks = \<lfloor>x\<rfloor>" using ticks by (simp add: x_def)
  have x0: "0 \<le> x" using lo tk by (simp add: le_floor_iff)
  have xlt: "x < 4294967296" using hi tk by (simp add: floor_less_iff)
  have "\<bar>x\<bar> < 2 ^ 128" using x0 xlt by simp
  moreover have "t \<noteq> 0" using pos by simp
  ultimately have tp: "tPeriod s = Fin x"
    using fr by (intro tPeriod_Fin) (simp_all add: x_def)
  have u: "uint (f2u32 (Fin x)) = ticks" using uint_f2u32_Fin[OF x0 xlt] tk by simp
  then show n2: "\<not> f2u32 (tPeriod s) < 2"
    using lo by (simp add: tp word32_less_2_iff del: f2u32.simps)
  then have "tPeriodInt s = f2u32 (Fin x)" by (simp add: tPeriodInt_def tp del: f2u32.simps)
  then have "uint (tPeriodInt s) = ticks" using u by simp
  then show "unat (tPeriodInt s) = nat ticks" by (simp add: unat_eq_nat_uint)
qed

text \<open>
  The frequency recomputed from a stored period \<open>m = r * p\<close> that lies at or below the
  float quotient \<open>x\<close> and misses it by less than \<open>p\<close>.
\<close>

lemma tFrequency_error:
  assumes fac: "FrequencyFactorTimes1000 s' \<noteq> 0" and pos: "0 < t"
    and x: "x = round32 (round32 (of_int (36000000000 div uint (FrequencyFactorTimes1000 s'))) / t)"
    and m: "unat (DividerInt s') = r * p" and r: "2 \<le> r" and p: "0 < p"
    and lo: "of_nat (r * p) \<le> x" and hi: "x < of_nat (r * p) + of_nat p"
  shows "\<exists>w. tFrequency s' = Fin w \<and> \<bar>w - t\<bar> / t \<le> 1 / of_nat r + 1 / 2 ^ 21"
proof -
  define q where "q = round32 (of_int (36000000000 div uint (FrequencyFactorTimes1000 s')))"
  define R where "R = round32 (of_nat (unat (DividerInt s')))"
  note kq = int_to_float_quotient[OF fac, folded q_def]
  have m2: "2 \<le> unat (DividerInt s')"
  proof -
    have "2 * 1 \<le> r * p" using r p by (intro mult_le_mono) simp_all
    then show ?thesis using m by simp
  qed
  note kR = u32_to_float_Fin[OF m2, folded R_def]
  have q0: "0 < q" using kq(2) by simp
  have R0: "0 < R" using kR(2) by simp
  have small: "(2::rat) powi (- 126) \<le> 1 / 2 ^ 29" by (simp add: power_int_minus_left)
  have qR: "1 / 2 ^ 29 \<le> q / R"
  proof -
    have "1 / 2 ^ 29 * R \<le> 1 / 2 ^ 29 * 2 ^ 32" using kR(3) by (intro mult_left_mono) simp_all
    also have "\<dots> \<le> q" using kq(2) by simp
    finally show ?thesis using R0 by (simp add: pos_le_divide_eq)
  qed
  have nR: "2 powi (- 126) \<le> \<bar>q / R\<bar>" using small qR by linarith
  have "q / R \<le> q / 1" using R0 kR(2) q0 by (intro divide_left_mono) simp_all
  moreover have "0 < q / R" using q0 R0 by simp
  ultimately have "\<bar>q / R\<bar> \<le> q" by simp
  moreover have "(2::rat) ^ 36 < 2 ^ 127" by simp
  ultimately have "\<bar>q / R\<bar> < 2 ^ 127" using kq(3) by linarith
  then have tf: "tFrequency s' = Fin (round32 (q / R))"
    using R0 by (simp add: tFrequency_def kq(1) kR(1) float32_Fin)
  have ew: "\<bar>round32 (q / R) - q / R\<bar> \<le> \<bar>q / R\<bar> / 2 ^ 24"
    using nR by (rule round32_rel_error)
  have x2: "2 \<le> x"
  proof -
    have "2 \<le> r * p" using m m2 by simp
    then have "(of_nat 2 :: rat) \<le> of_nat (r * p)" by (simp only: of_nat_le_iff)
    then show ?thesis using lo by simp
  qed
  have nx: "2 powi (- 126) \<le> \<bar>q / t\<bar>"
  proof (rule ccontr)
    assume "\<not> 2 powi (- 126) \<le> \<bar>q / t\<bar>"
    then have "\<bar>q / t\<bar> < 2 powi (- 126)" by (simp only: not_le)
    moreover have "(2::rat) powi (- 126) \<le> 2 powi (- 126 + 1)"
      by (intro power_int_increasing) simp_all
    ultimately have "\<bar>q / t\<bar> < 2 powi (- 126 + 1)" by linarith
    then have "\<bar>round32 (q / t)\<bar> \<le> 2 powi (- 126 + 1)" by (rule round32_bound) simp
    then have "\<bar>x\<bar> \<le> 2 powi (- 125)" by (simp add: x q_def)
    moreover have "(2::rat) powi (- 125) < 2" by (simp add: power_int_minus_left)
    ultimately show False using x2 by linarith
  qed
  have ex: "\<bar>x - q / t\<bar> \<le> \<bar>q / t\<bar> / 2 ^ 24"
    unfolding x q_def[symmetric] using nx by (rule round32_rel_error)
  have eR: "\<bar>R - of_nat (r * p)\<bar> \<le> \<bar>of_nat (r * p)\<bar> / 2 ^ 24"
    using kR(4) by (simp only: m)
  have "\<bar>round32 (q / R) - t\<bar> / t \<le> 1 / of_nat r + 1 / 2 ^ 21"
    using pos q0 ex eR ew refl r p lo hi by (rule quantization)
  then show ?thesis using tf by blast
qed

subsection \<open>Powers of ten and logarithms\<close>

lemma ln10_ge_1: "1 \<le> ln (10::real)"
proof -
  have "exp (1::real) \<le> 3" by (rule exp_le)
  then have "exp (1::real) \<le> 10" by simp
  then show ?thesis by (simp add: ln_ge_iff)
qed

lemma powr10_ge:
  fixes x :: real
  assumes "0 \<le> x"
  shows "1 + x \<le> 10 powr x"
proof -
  have "1 + x \<le> 1 + x * ln 10" using assms ln10_ge_1 by (simp add: mult_le_cancel_left1)
  also have "\<dots> \<le> exp (x * ln 10)" by (rule exp_ge_add_one_self)
  finally show ?thesis by (simp add: powr_def)
qed

text \<open>
  A value within one part in \<open>2^23\<close> of \<open>10^t\<close> lies between \<open>10^(t - 1/1000)\<close> and
  \<open>10^(t + 1/1000)\<close>, and so does its logarithm between the exponents.
\<close>

lemma log10_near:
  fixes F t :: real
  assumes "\<bar>F - 10 powr t\<bar> \<le> 10 powr t / 2 ^ 23"
  shows "0 < F" and "\<bar>log 10 F - t\<bar> \<le> 1 / 1000"
    and "10 powr (t - 1 / 1000) \<le> F" and "F \<le> 10 powr (t + 1 / 1000)"
proof -
  define Z where "Z = (10::real) powr t"
  define c where "c = (10::real) powr (1 / 1000)"
  have Z0: "0 < Z" by (simp add: Z_def)
  have c1: "1 + 1 / 1000 \<le> c" unfolding c_def by (rule powr10_ge) simp
  have c0: "0 < c" using c1 by linarith
  have lo: "Z - Z / 2 ^ 23 \<le> F" and hi: "F \<le> Z + Z / 2 ^ 23"
    using assms unfolding Z_def[symmetric] by linarith+
  have up: "10 powr (t + 1 / 1000) = Z * c" by (simp add: Z_def c_def powr_add)
  have dn: "10 powr (t - 1 / 1000) = Z / c" by (simp add: Z_def c_def powr_diff)
  have "Z + Z / 2 ^ 23 = Z * (1 + 1 / 2 ^ 23)" by (simp add: algebra_simps)
  also have "\<dots> \<le> Z * c" using Z0 c1 by (intro mult_left_mono) simp_all
  finally show h: "F \<le> 10 powr (t + 1 / 1000)" using hi up by linarith
  have "1 / c \<le> 1 / (1 + 1 / 1000)" using c1 by (intro divide_left_mono) simp_all
  also have "\<dots> \<le> 1 - 1 / 2 ^ 23" by simp
  finally have "Z * (1 / c) \<le> Z * (1 - 1 / 2 ^ 23)" using Z0 by (intro mult_left_mono) simp_all
  moreover have "Z * (1 - 1 / 2 ^ 23) = Z - Z / 2 ^ 23" by (simp add: algebra_simps)
  ultimately have "Z / c \<le> Z - Z / 2 ^ 23" by simp
  then show l: "10 powr (t - 1 / 1000) \<le> F" using lo dn by linarith
  have "0 < 10 powr (t - 1 / 1000)" by simp
  then show F0: "0 < F" using l by linarith
  have "log 10 (10 powr (t - 1 / 1000)) \<le> log 10 F"
    using l F0 by (subst log_le_cancel_iff) simp_all
  then have a: "t - 1 / 1000 \<le> log 10 F" by simp
  have "log 10 F \<le> log 10 (10 powr (t + 1 / 1000))"
    using h F0 by (subst log_le_cancel_iff) simp_all
  then have b: "log 10 F \<le> t + 1 / 1000" by simp
  show "\<bar>log 10 F - t\<bar> \<le> 1 / 1000" using a b by linarith
qed

subsection \<open>The position of the slider\<close>

lemma of_rat_abs_diff_le:
  assumes "\<bar>real_of_rat a - real_of_rat b\<bar> \<le> real_of_rat c"
  shows "\<bar>a - b\<bar> \<le> c"
proof -
  have "real_of_rat (a - b) \<le> real_of_rat c" "real_of_rat (b - a) \<le> real_of_rat c"
    using assms by (simp_all add: of_rat_diff abs_le_iff)
  then have "a - b \<le> c" "b - a \<le> c" by (simp_all only: of_rat_less_eq)
  then show ?thesis by (simp add: abs_le_iff)
qed

lemma scaled_near:
  fixes p c d m :: rat
  assumes "\<bar>p - c\<bar> \<le> d" and "0 < m" and "d * m < 1 / 2"
  shows "\<bar>p * m - c * m\<bar> < 1 / 2"
proof -
  have "p * m - c * m = (p - c) * m" by (simp add: algebra_simps)
  then have "\<bar>p * m - c * m\<bar> = \<bar>p - c\<bar> * m" using assms(2) by (simp add: abs_mult)
  also have "\<dots> \<le> d * m" using assms(1,2) by (intro mult_right_mono) simp_all
  finally show ?thesis using assms(3) by linarith
qed

lemma round32_eq_1:
  assumes "\<bar>p - 1\<bar> \<le> 1 / 67108864"
  shows "round32 p = 1"
proof (cases "1 \<le> p")
  case True
  have hi: "p < 2" using assms by linarith
  have "round32 p = of_int 8388608 * 2 powi (0 - 23)"
  proof (rule round32_near)
    show "2 powi 0 \<le> \<bar>p\<bar>" using True by simp
    show "\<bar>p\<bar> < 2 powi (0 + 1)" using hi True by simp
    have "\<bar>p * 8388608 - 1 * 8388608\<bar> < 1 / 2" using assms by (rule scaled_near) simp_all
    then show "\<bar>p / 2 powi (0 - 23) - of_int 8388608\<bar> < 1 / 2"
      by (simp add: power_int_minus_left)
  qed simp
  then show ?thesis by (simp add: power_int_minus_left)
next
  case False
  then have lt: "p < 1" by simp
  have ge: "1 / 2 \<le> p" using assms by linarith
  have "round32 p = of_int 16777216 * 2 powi (- 1 - 23)"
  proof (rule round32_near)
    show "2 powi (- 1) \<le> \<bar>p\<bar>" using ge by (simp add: power_int_minus_left)
    show "\<bar>p\<bar> < 2 powi (- 1 + 1)" using lt ge by simp
    have "\<bar>p * 16777216 - 1 * 16777216\<bar> < 1 / 2" using assms by (rule scaled_near) simp_all
    then show "\<bar>p / 2 powi (- 1 - 23) - of_int 16777216\<bar> < 1 / 2"
      by (simp add: power_int_minus_left)
  qed simp
  then show ?thesis by (simp add: power_int_minus_left)
qed

lemma round32_eq_10:
  assumes "\<bar>p - 10\<bar> \<le> 1 / 4194304"
  shows "round32 p = 10"
proof -
  have b: "8 \<le> p" "p < 16" using assms by linarith+
  have "round32 p = of_int 10485760 * 2 powi (3 - 23)"
  proof (rule round32_near)
    show "2 powi 3 \<le> \<bar>p\<bar>" using b by simp
    show "\<bar>p\<bar> < 2 powi (3 + 1)" using b by simp
    have "\<bar>p * 1048576 - 10 * 1048576\<bar> < 1 / 2" using assms by (rule scaled_near) simp_all
    then show "\<bar>p / 2 powi (3 - 23) - of_int 10485760\<bar> < 1 / 2"
      by (simp add: power_int_minus_left)
  qed simp
  then show ?thesis by (simp add: power_int_minus_left)
qed

text \<open>
  A float product within \<open>1/5\<close> of the integer \<open>N\<close> is converted to \<open>N\<close> or to \<open>N - 1\<close>.
\<close>

lemma f2u16_float32_near:
  assumes near: "\<bar>x - of_nat N\<bar> \<le> 1 / 5" and N: "N < 512"
  shows "\<exists>v. f2u16 (float32 x) = Some v \<and> (unat v = N \<or> unat v + 1 = N)"
proof -
  have "(of_nat N :: rat) \<le> of_nat 511" using N by (simp only: of_nat_le_iff)
  then have Nr: "(of_nat N :: rat) \<le> 511" by simp
  have N0: "(0::rat) \<le> of_nat N" by simp
  have "\<bar>x\<bar> < 512" using near Nr N0 by linarith
  then have ax: "\<bar>x\<bar> < 2 powi (8 + 1)" by simp
  have "exponent32 x \<le> 8" using ax by (rule exponent32_le) simp
  then have "exponent32 x - 24 \<le> - 16" by simp
  then have "(2::rat) powi (exponent32 x - 24) \<le> 2 powi (- 16)"
    by (intro power_int_increasing) simp_all
  then have err: "\<bar>round32 x - x\<bar> \<le> 1 / 65536"
    using round32_abs_error[of x] by (simp add: power_int_minus_left)
  define r where "r = round32 x"
  have fl: "float32 x = Fin r"
    unfolding r_def using ax by (intro float32_Fin) simp
  have r1: "of_nat N - 1 / 4 \<le> r" and r2: "r \<le> of_nat N + 1 / 4"
    using err near unfolding r_def by linarith+
  have rlo: "- 1 < r" using r1 N0 by linarith
  have rhi: "r < 65536" using r2 Nr by linarith
  define k where "k = (if r < 0 then \<lceil>r\<rceil> else \<lfloor>r\<rfloor>)"
  have res: "f2u16 (float32 x) = Some (word_of_int k)"
    using rlo rhi by (simp add: fl k_def)
  have kN: "0 \<le> k \<and> (k = int N \<or> k + 1 = int N)"
  proof (cases "r < 0")
    case True
    then have "\<lceil>r\<rceil> = 0" using rlo by (simp add: ceiling_eq_iff)
    then have k0: "k = 0" using True by (simp add: k_def)
    have "(of_nat N :: rat) < 1" using r1 True by linarith
    then have "(of_nat N :: rat) < of_nat 1" by simp
    then have "N < 1" by (simp only: of_nat_less_iff)
    then show ?thesis using k0 by simp
  next
    case False
    then have kf: "k = \<lfloor>r\<rfloor>" by (simp add: k_def)
    have "0 \<le> r" using False by simp
    then have nn: "0 \<le> k" unfolding kf by simp
    have "r < of_int (int N + 1)" using r2 by simp
    then have up: "k < int N + 1" unfolding kf by (simp only: floor_less_iff)
    have lo: "int N - 1 \<le> k"
    proof (cases "N = 0")
      case True
      then show ?thesis using nn by linarith
    next
      case nz: False
      have "of_int (int N - 1) \<le> r" using r1 by simp
      then show ?thesis unfolding kf by (simp only: le_floor_iff)
    qed
    show ?thesis using up lo nn by linarith
  qed
  then have k0: "0 \<le> k" by simp
  have k6: "k < 65536" using kN N by linarith
  have "uint (word_of_int k :: 16 word) = k"
    using k0 k6 by (simp add: uint_word_of_int take_bit_int_eq_self)
  then have "unat (word_of_int k :: 16 word) = nat k" by (simp add: unat_eq_nat_uint)
  then have "unat (word_of_int k :: 16 word) = N \<or> unat (word_of_int k :: 16 word) + 1 = N"
    using kN k0 by auto
  then show ?thesis using res by blast
qed

text \<open>
  What \<open>pow(10, t)\<close> becomes when it is stored in the float \<open>Frequency\<close>.
\<close>

lemma pow_stored:
  assumes pw: "pow_accurate lib" and tf: "round32 t = t" and t0: "0 \<le> t" and t5: "t \<le> 5"
  shows "\<exists>p. pow lib (Fin 10) (Fin t) = Fin p \<and>
           f64_to_f32 (Fin p) = Fin (round32 p) \<and>
           \<bar>real_of_rat p - 10 powr real_of_rat t\<bar> \<le> 10 powr real_of_rat t / 2 ^ 30 \<and>
           \<bar>real_of_rat (round32 p) - 10 powr real_of_rat t\<bar> \<le> 10 powr real_of_rat t / 2 ^ 23"
proof -
  define Z where "Z = (10::real) powr real_of_rat t"
  have "\<exists>p. pow lib (Fin 10) (Fin t) = Fin p \<and> \<bar>real_of_rat p - Z\<bar> \<le> Z / 2 ^ 30"
    using pw[unfolded pow_accurate_def, rule_format, of t] tf t0 t5 by (simp add: Z_def)
  then obtain p where p: "pow lib (Fin 10) (Fin t) = Fin p"
    and e: "\<bar>real_of_rat p - Z\<bar> \<le> Z / 2 ^ 30" by blast
  have Z1: "1 \<le> Z" using t0 by (simp add: Z_def ge_one_powr_ge_zero)
  have "real_of_rat t \<le> real_of_rat 5" using t5 by (simp only: of_rat_less_eq)
  then have "real_of_rat t \<le> 5" by simp
  then have "Z \<le> 10 powr 5" unfolding Z_def by (intro powr_mono) simp_all
  then have Z5: "Z \<le> 100000" by simp
  have "Z / 2 ^ 30 \<le> Z / 2" using Z1 by simp
  then have plo: "1 / 2 \<le> real_of_rat p" and phi: "real_of_rat p \<le> 200000"
    using e Z1 Z5 by linarith+
  have "real_of_rat (1 / 2) \<le> real_of_rat p" using plo by (simp add: of_rat_divide)
  then have rlo: "1 / 2 \<le> p" by (simp only: of_rat_less_eq)
  have "real_of_rat p \<le> real_of_rat 200000" using phi by simp
  then have rhi: "p \<le> 200000" by (simp only: of_rat_less_eq)
  have ab: "\<bar>p\<bar> = p" using rlo by simp
  have "\<bar>p\<bar> < 2 ^ 127" using rhi ab by simp
  then have st: "f64_to_f32 (Fin p) = Fin (round32 p)" by (simp add: float32_Fin)
  have "(2::rat) powi (- 126) \<le> 1 / 2" by (simp add: power_int_minus_left)
  then have "2 powi (- 126) \<le> \<bar>p\<bar>" using rlo ab by linarith
  then have "\<bar>round32 p - p\<bar> \<le> \<bar>p\<bar> / 2 ^ 24" by (rule round32_rel_error)
  then have "\<bar>round32 p - p\<bar> \<le> p / 2 ^ 24" using ab by simp
  then have "real_of_rat \<bar>round32 p - p\<bar> \<le> real_of_rat (p / 2 ^ 24)"
    by (simp only: of_rat_less_eq)
  then have r: "\<bar>real_of_rat (round32 p) - real_of_rat p\<bar> \<le> real_of_rat p / 2 ^ 24"
    by (simp add: of_rat_diff of_rat_divide of_rat_power abs_if of_rat_minus of_rat_less split: if_splits)
  have "real_of_rat p \<le> Z + Z / 2 ^ 30" using e by linarith
  then have "real_of_rat p / 2 ^ 24 \<le> (Z + Z / 2 ^ 30) / 2 ^ 24" by (simp add: divide_right_mono)
  then have "\<bar>real_of_rat (round32 p) - Z\<bar> \<le> Z / 2 ^ 30 + (Z + Z / 2 ^ 30) / 2 ^ 24"
    using r e by linarith
  also have "\<dots> \<le> Z / 2 ^ 23" using Z1 by simp
  finally show ?thesis using p st e unfolding Z_def by blast
qed

text \<open>
  The slider position for a stored frequency \<open>F\<close> within one part in \<open>2^23\<close> of \<open>10^t\<close>,
  when \<open>100 * t\<close> is within \<open>1/1000\<close> of the integer \<open>N\<close>.
\<close>

lemma encode_near:
  assumes acc: "log10f_accurate lib" and Ff: "round32 F = F"
    and F: "\<bar>real_of_rat F - 10 powr real_of_rat t\<bar> \<le> 10 powr real_of_rat t / 2 ^ 23"
    and tlo: "1 / 1000 \<le> t" and thi: "t \<le> 4999 / 1000"
    and N: "\<bar>100 * t - of_nat N\<bar> \<le> 1 / 1000" and N5: "N < 512"
  shows "\<exists>v. f2u16 (fmul (log10f lib (Fin F)) (Fin 100)) = Some v \<and>
           (unat v = N \<or> unat v + 1 = N)"
proof -
  define tr where "tr = real_of_rat t"
  note n = log10_near[OF F[folded tr_def]]
  have "real_of_rat (1 / 1000) \<le> real_of_rat t" using tlo by (simp only: of_rat_less_eq)
  then have tr_lo: "1 / 1000 \<le> tr" by (simp add: tr_def of_rat_divide)
  have "real_of_rat t \<le> real_of_rat (4999 / 1000)" using thi by (simp only: of_rat_less_eq)
  then have tr_hi: "tr \<le> 4999 / 1000" by (simp add: tr_def of_rat_divide)
  have "(10::real) powr 0 \<le> 10 powr (tr - 1 / 1000)" using tr_lo by (intro powr_mono) simp_all
  then have "(1::real) \<le> 10 powr (tr - 1 / 1000)" by simp
  then have "real_of_rat 1 \<le> real_of_rat F" using n(3) unfolding of_rat_1 by linarith
  then have F1: "1 \<le> F" by (simp only: of_rat_less_eq)
  have "(10::real) powr (tr + 1 / 1000) \<le> 10 powr 5" using tr_hi by (intro powr_mono) simp_all
  then have "(10::real) powr (tr + 1 / 1000) \<le> 100000" by simp
  moreover have "real_of_rat 100000 = (100000::real)" by simp
  ultimately have "real_of_rat F \<le> real_of_rat 100000" using n(4) by linarith
  then have F5: "F \<le> 100000" by (simp only: of_rat_less_eq)
  have "\<exists>y. log10f lib (Fin F) = Fin y \<and> \<bar>real_of_rat y - log 10 (real_of_rat F)\<bar> \<le> 1 / 1024"
    using acc[unfolded log10f_accurate_def, rule_format, of F] Ff F1 F5 by simp
  then obtain y where y: "log10f lib (Fin F) = Fin y"
    and e: "\<bar>real_of_rat y - log 10 (real_of_rat F)\<bar> \<le> 1 / 1024" by blast
  have "\<bar>real_of_rat y - real_of_rat t\<bar> \<le> 1 / 1024 + 1 / 1000"
    using e n(2) unfolding tr_def by linarith
  also have "\<dots> = real_of_rat (1 / 1024 + 1 / 1000)" by (simp add: of_rat_add of_rat_divide)
  finally have "\<bar>y - t\<bar> \<le> 1 / 1024 + 1 / 1000" by (rule of_rat_abs_diff_le)
  then have "\<bar>y * 100 - of_nat N\<bar> \<le> 1 / 5" using N by linarith
  from f2u16_float32_near[OF this N5] show ?thesis by (simp add: y)
qed

text \<open>
  The exponent of \<open>doFrequencySlider\<close>: the position divided by 100 in floats, and one
  more in the 10 Hz range.
\<close>

lemma slider_exponent:
  assumes s: "s \<le> 300"
  defines "a \<equiv> round32 (of_nat s / 100)"
  defines "b \<equiv> round32 (a + 1)"
  shows "u16_to_float (of_nat s) = Fin (of_nat s)"
    and "fdiv (Fin (of_nat s)) (int_to_float (FREQ_SLIDER_MAX_VALUE div 3)) = Fin a"
    and "fadd (Fin a) (Fin 1) = Fin b"
    and "0 \<le> a" and "\<bar>a - of_nat s / 100\<bar> \<le> 1 / 8388608"
    and "0 \<le> b" and "\<bar>b - (of_nat s / 100 + 1)\<bar> \<le> 3 / 8388608"
proof -
  define x :: rat where "x = of_nat s / 100"
  have "(of_nat s :: rat) \<le> of_nat 300" using s by (simp only: of_nat_le_iff)
  then have x3: "x \<le> 3" by (simp add: x_def)
  have x0: "0 \<le> x" by (simp add: x_def)
  have "unat (of_nat s :: 16 word) = s" using s by (simp add: unat_of_nat)
  moreover have "float32 (of_int (int s)) = Fin (of_int (int s))"
    using s by (intro float32_of_int) simp
  ultimately show "u16_to_float (of_nat s) = Fin (of_nat s)"
    by (simp add: u16_to_float_def)
  have h: "int_to_float (FREQ_SLIDER_MAX_VALUE div 3) = Fin 100"
    by (simp add: FREQ_SLIDER_MAX_VALUE_def int_to_float_def float32_numeral)
  have ax: "\<bar>x\<bar> < 2 powi (1 + 1)" using x0 x3 by simp
  then have "\<bar>x\<bar> < 2 ^ 127" by simp
  then show "fdiv (Fin (of_nat s)) (int_to_float (FREQ_SLIDER_MAX_VALUE div 3)) = Fin a"
    by (simp add: h a_def x_def[symmetric] float32_Fin)
  show a0: "0 \<le> a" unfolding a_def x_def[symmetric] using x0 by (rule round32_nonneg)
  have "exponent32 x \<le> 1" using ax by (rule exponent32_le) simp
  then have "exponent32 x - 24 \<le> - 23" by simp
  then have "(2::rat) powi (exponent32 x - 24) \<le> 2 powi (- 23)"
    by (intro power_int_increasing) simp_all
  then have "\<bar>round32 x - x\<bar> \<le> 1 / 8388608"
    using round32_abs_error[of x] by (simp add: power_int_minus_left)
  then show ea: "\<bar>a - of_nat s / 100\<bar> \<le> 1 / 8388608" by (simp add: a_def x_def)
  have a4: "a + 1 < 8" using ea x3 unfolding x_def by linarith
  have ay: "\<bar>a + 1\<bar> < 2 powi (2 + 1)" using a0 a4 by simp
  then have "\<bar>a + 1\<bar> < 2 ^ 127" by simp
  then show "fadd (Fin a) (Fin 1) = Fin b" by (simp add: b_def float32_Fin)
  show "0 \<le> b" unfolding b_def using a0 by (intro round32_nonneg) simp
  have "exponent32 (a + 1) \<le> 2" using ay by (rule exponent32_le) simp
  then have "exponent32 (a + 1) - 24 \<le> - 22" by simp
  then have "(2::rat) powi (exponent32 (a + 1) - 24) \<le> 2 powi (- 22)"
    by (intro power_int_increasing) simp_all
  then have "\<bar>round32 (a + 1) - (a + 1)\<bar> \<le> 1 / 4194304"
    using round32_abs_error[of "a + 1"] by (simp add: power_int_minus_left)
  then show "\<bar>b - (of_nat s / 100 + 1)\<bar> \<le> 3 / 8388608"
    using ea unfolding b_def by linarith
qed

text \<open>The call of \<open>doFrequencySlider\<close>, with the float exponent \<open>tValue\<close> it computes.\<close>

lemma doFrequencySlider_Some:
  assumes fac: "FrequencyFactorTimes1000 st \<noteq> 0"
    and tv: "tValue = (if is10HzRange st
        then fadd (fdiv (u16_to_float aValue) (int_to_float (FREQ_SLIDER_MAX_VALUE div 3))) (Fin 1)
        else fdiv (u16_to_float aValue) (int_to_float (FREQ_SLIDER_MAX_VALUE div 3)))"
    and F: "F = f64_to_f32 (pow lib (Fin 10) tValue)"
  shows "\<exists>st'. doFrequencySlider lib tm aValue st = Some st' \<and>
           Frequency st' = F \<and> is10HzRange st' = is10HzRange st \<and>
           SliderActualValue st' =
             (if is10HzRange st
              then map_option (\<lambda>v. v - 100) (f2u16 (fmul (log10f lib F) (Fin 100)))
              else f2u16 (fmul (log10f lib F) (Fin 100)))"
proof -
  define s0 where "s0 = st\<lparr>Frequency := F\<rparr>"
  have f0: "FrequencyFactorTimes1000 s0 \<noteq> 0" using fac by (simp add: s0_def)
  from setWaveformFrequency_returns[OF f0, of tm]
  obtain e s1 where r: "setWaveformFrequency tm s0 = Some (e, s1)" by blast
  note k = setWaveformFrequency_keeps[OF r]
  have f1: "FrequencyFactorTimes1000 s1 \<noteq> 0" using f0 k(3) by simp
  have p1: "printFrequencyAndPeriod lib s1 = Some (s1\<lparr>SliderActualValue := tSliderValue lib s1\<rparr>)"
    using f1 by (simp add: printFrequencyAndPeriod_def)
  have "doFrequencySlider lib tm aValue st = Some (s1\<lparr>SliderActualValue := tSliderValue lib s1\<rparr>)"
    unfolding doFrequencySlider_def Let_def tv[symmetric] F[symmetric] s0_def[symmetric]
    by (simp add: SetWaveformFrequencyAndPrintValues_def r p1)
  moreover have "Frequency s1 = F" "is10HzRange s1 = is10HzRange st"
    using k(1,5) by (simp_all add: s0_def)
  ultimately show ?thesis by (simp add: tSliderValue_def Let_def)
qed

text \<open>
  The position 0 in the 10 Hz range when \<^verbatim>\<open>log10f(10)\<close> is a float below 1, however close:
  the product with 100 is rounded to a float below 100 and truncated to 99, and the
  subtraction of 100 wraps around to 65535.
\<close>

lemma slider_zero_wraps:
  assumes pw: "pow_accurate lib"
    and y: "log10f lib (Fin 10) = Fin y" and fl: "round32 y = y"
    and lt: "y < 1" and ge: "99 / 100 \<le> y"
    and r10: "is10HzRange st" and fac: "FrequencyFactorTimes1000 st \<noteq> 0"
  shows "\<exists>st'. doFrequencySlider lib tm 0 st = Some st' \<and> SliderActualValue st' = Some 65535"
proof -
  have s: "(0::nat) \<le> 300" by simp
  note x = slider_exponent[OF s]
  have b1: "round32 (0 + 1) = 1" using round32_of_int[of 1] by simp
  have u: "u16_to_float 0 = Fin 0" using x(1) by simp
  have d: "fdiv (Fin 0) (int_to_float (FREQ_SLIDER_MAX_VALUE div 3)) = Fin 0"
    using x(2) by (simp add: round32_0 del: fdiv.simps)
  have ad: "fadd (Fin 0) (Fin 1) = Fin 1"
    using x(3) b1 by (simp add: round32_0 del: fadd.simps)
  have tv: "Fin 1 = (if is10HzRange st
        then fadd (fdiv (u16_to_float 0) (int_to_float (FREQ_SLIDER_MAX_VALUE div 3))) (Fin 1)
        else fdiv (u16_to_float 0) (int_to_float (FREQ_SLIDER_MAX_VALUE div 3)))"
    using r10 by (simp only: u d ad if_True)
  from pow_stored[OF pw, of 1] b1
  obtain p where p: "pow lib (Fin 10) (Fin 1) = Fin p"
    and st: "f64_to_f32 (Fin p) = Fin (round32 p)"
    and ep: "\<bar>real_of_rat p - 10 powr real_of_rat 1\<bar> \<le> 10 powr real_of_rat 1 / 2 ^ 30"
    by auto
  have "\<bar>real_of_rat p - 10\<bar> \<le> 10 / 2 ^ 30" using ep by simp
  also have "\<dots> \<le> real_of_rat (1 / 4194304)" by (simp add: of_rat_divide)
  finally have "\<bar>real_of_rat p - real_of_rat 10\<bar> \<le> real_of_rat (1 / 4194304)" by simp
  then have "\<bar>p - 10\<bar> \<le> 1 / 4194304" by (rule of_rat_abs_diff_le)
  then have F10: "round32 p = 10" by (rule round32_eq_10)
  have Fq: "Fin 10 = f64_to_f32 (pow lib (Fin 10) (Fin 1))"
    by (simp add: p st F10 del: f64_to_f32.simps)
  from doFrequencySlider_Some[OF fac tv Fq, of tm]
  obtain st' where r: "doFrequencySlider lib tm 0 st = Some st'"
    and rs: "SliderActualValue st' =
               map_option (\<lambda>v. v - 100) (f2u16 (fmul (log10f lib (Fin 10)) (Fin 100)))"
    using r10 by auto
  have ay: "\<bar>y\<bar> = y" using ge by simp
  have "round32 y = of_int (round_half_even (y / 2 powi (- 1 - 23))) * 2 powi (- 1 - 23)"
  proof (rule round32_eval)
    show "2 powi (- 1) \<le> \<bar>y\<bar>" using ge ay by (simp add: power_int_minus_left)
    show "\<bar>y\<bar> < 2 powi (- 1 + 1)" using lt ay by simp
  qed simp
  then have yn: "y = of_int (round_half_even (y * 16777216)) / 16777216"
    using fl by (simp add: power_int_minus_left)
  define n where "n = round_half_even (y * 16777216)"
  have "(of_int n :: rat) < of_int 16777216" using yn lt by (simp add: n_def)
  then have "n < 16777216" by (simp only: of_int_less_iff)
  then have "n \<le> 16777215" by simp
  then have "(of_int n :: rat) \<le> of_int 16777215" by (simp only: of_int_le_iff)
  then have yle: "y \<le> 16777215 / 16777216" using yn by (simp add: n_def)
  define z where "z = y * 100"
  have zlo: "99 \<le> z" and zhi: "z \<le> 100 - 100 / 16777216" using ge yle by (simp_all add: z_def)
  have az: "\<bar>z\<bar> = z" using zlo by simp
  have rz: "round32 z = of_int (round_half_even (z / 2 powi (6 - 23))) * 2 powi (6 - 23)"
  proof (rule round32_eval)
    show "2 powi 6 \<le> \<bar>z\<bar>" using zlo az by simp
    show "\<bar>z\<bar> < 2 powi (6 + 1)" using zhi az by simp
  qed simp
  define m where "m = round_half_even (z * 131072)"
  have rz': "round32 z = of_int m / 131072" using rz by (simp add: m_def power_int_minus_left)
  have "\<bar>of_int m - z * 131072\<bar> \<le> 1 / 2" unfolding m_def by (rule rhe_error)
  then have "(of_int m :: rat) < of_int 13107200" and "(of_int (12976127) :: rat) < of_int m"
    using zlo zhi by linarith+
  then have "m < 13107200" and "12976127 < m" by (simp_all only: of_int_less_iff)
  then have "m \<le> 13107199" and "12976128 \<le> m" by simp_all
  then have "(of_int m :: rat) \<le> of_int 13107199" and "(of_int 12976128 :: rat) \<le> of_int m"
    by (simp_all only: of_int_le_iff)
  then have r99: "99 \<le> round32 z" and r100: "round32 z < 100" by (simp_all add: rz')
  have "\<bar>z\<bar> < 2 ^ 127" using zhi az by simp
  then have "fmul (Fin y) (Fin 100) = Fin (round32 z)" by (simp add: z_def float32_Fin)
  moreover have "\<lfloor>round32 z\<rfloor> = 99" using r99 r100 by (simp add: floor_eq_iff)
  ultimately have "f2u16 (fmul (Fin y) (Fin 100)) = Some 99" using r99 r100 by simp
  then have "SliderActualValue st' = Some 65535" using rs by (simp add: y)
  then show ?thesis using r by simp
qed

section \<open>The translation of a target into a reload value\<close>

subsection \<open>The 32-bit timer\<close>

text \<open>
  Claim C1 as it is stated takes the tick count from the exact quotient and puts no bound
  on it. The code divides floats: at 10 mHz the 64-bit quotient 36 000 000 000 becomes the
  float 35 999 997 952, its tenth is rounded to 3 599 999 744, and that is the reload
  stored with no error, not the 3 600 000 000 of the exact quotient. At 2 mHz the exact
  tick count is 18 000 000 000: it is not below 2, and no 32-bit reload equals it.
\<close>

theorem translate32_reload_not_ticks_counterexample:
  "setWaveformFrequency Timer32 (target_state 10 0) =
     Some (False, (target_state 10 0)\<lparr>DividerInt := 3599999744,
        driver_calls := [Synth_Timer32_SetReloadValue 3599999744]\<rparr>) \<and>
   \<lfloor>of_int (36000000000 div uint (FrequencyFactorTimes1000 (target_state 10 0))) / (10 :: rat)\<rfloor>
     = (3600000000 :: int) \<and>
   uint (3599999744 :: 32 word) \<noteq> 3600000000 \<and>
   \<lfloor>of_int (36000000000 div uint (FrequencyFactorTimes1000 (target_state 2 0))) / (2 :: rat)\<rfloor>
     = (18000000000 :: int) \<and>
   \<not> (\<exists>s'. setWaveformFrequency Timer32 (target_state 2 0) = Some (False, s') \<and>
            uint (DividerInt s') = 18000000000)"
proof -
  have h1: "Waveform (target_state 10 0) = WAVEFORM_SQUARE"
    by (simp add: target_state_simps WAVEFORM_SQUARE_def)
  have h2: "FrequencyFactorTimes1000 (target_state 10 0) \<noteq> 0"
    by (simp add: target_state_simps)
  have h3: "f2u32 (tPeriod (target_state 10 0)) = 3599999744"
    by (simp add: tPeriod_10mHz)
  have a: "setWaveformFrequency Timer32 (target_state 10 0) =
     Some (False, (target_state 10 0)\<lparr>DividerInt := 3599999744,
        driver_calls := [Synth_Timer32_SetReloadValue 3599999744]\<rparr>)"
    by (simp add: setWaveformFrequency_square[OF h1 h2] tPeriodInt_def h3 target_state_simps)
  have "uint w \<noteq> 18000000000" for w :: "32 word"
    using uint_bounded[of w] by simp
  then show ?thesis using a by (simp add: target_state_simps)
qed

text \<open>
  Claim C1, as amended. On the 32-bit timer, for a square wave with a positive target
  \<open>t\<close> and a non-zero factor, let \<open>ticks\<close> be the float quotient of the code rounded
  down: the integer \<open>36000000000 div factor\<close> rounded to binary32, divided by \<open>t\<close>, and
  the quotient rounded to binary32. If \<open>ticks\<close> is below 2 the call returns the error
  flag and stores the reload 2; otherwise, provided \<open>ticks\<close> is at most \<open>0xFFFFFFFF\<close>, it
  returns no error and stores \<open>ticks\<close>. In both cases the stored reload is what the driver
  receives.
\<close>

theorem translate32_lower_clip:
  assumes sq: "Waveform s = WAVEFORM_SQUARE"
    and fac: "FrequencyFactorTimes1000 s \<noteq> 0"
    and fr: "Frequency s = Fin t" and pos: "0 < t"
    and ticks: "ticks = \<lfloor>round32 (round32 (of_int (36000000000 div
        uint (FrequencyFactorTimes1000 s))) / t)\<rfloor>"
    and fits: "ticks < 4294967296"
  shows "\<exists>s'. setWaveformFrequency Timer32 s = Some (ticks < 2, s') \<and>
           uint (DividerInt s') = (if ticks < 2 then 2 else ticks) \<and>
           driver_calls s' = driver_calls s @ [Synth_Timer32_SetReloadValue (DividerInt s')]"
proof -
  define q where "q = round32 (of_int (36000000000 div uint (FrequencyFactorTimes1000 s)))"
  define x where "x = round32 (q / t)"
  have tk: "ticks = \<lfloor>x\<rfloor>" using ticks by (simp add: x_def q_def)
  have "0 \<le> 36000000000 div uint (FrequencyFactorTimes1000 s)"
    by (simp add: div_int_pos_iff)
  then have "(0::rat) \<le> of_int (36000000000 div uint (FrequencyFactorTimes1000 s))" by simp
  then have q0: "0 \<le> q" unfolding q_def by (rule round32_nonneg)
  have x0: "0 \<le> x" unfolding x_def using q0 pos by (intro round32_nonneg) simp
  have xlt: "x < 4294967296" using fits tk by (simp add: floor_less_iff)
  have "\<bar>x\<bar> < 2 ^ 128" using x0 xlt by simp
  moreover have "t \<noteq> 0" using pos by simp
  ultimately have tp: "tPeriod s = Fin x"
    using fr by (intro tPeriod_Fin) (simp_all add: x_def q_def)
  have u: "uint (f2u32 (Fin x)) = ticks"
    using uint_f2u32_Fin[OF x0 xlt] tk by simp
  then have lt2: "f2u32 (Fin x) < 2 \<longleftrightarrow> ticks < 2"
    by (simp add: word32_less_2_iff del: f2u32.simps)
  show ?thesis
    using lt2 u
    by (simp add: setWaveformFrequency_square[OF sq fac] tPeriodInt_def tp del: f2u32.simps)
qed

text \<open>
  The theorem at 20 MHz, where the float quotient 1.8 is clipped to the reload 2 with the
  error flag, and at 10 mHz, where the reload is 3 599 999 744 with no error.
\<close>

theorem translate32_lower_clip_witness:
  "(Waveform (target_state 20000000 1) = WAVEFORM_SQUARE \<and>
    FrequencyFactorTimes1000 (target_state 20000000 1) \<noteq> 0 \<and>
    Frequency (target_state 20000000 1) = Fin 20000000 \<and> (0 :: rat) < 20000000 \<and>
    (1 :: int) = \<lfloor>round32 (round32 (of_int (36000000000 div
        uint (FrequencyFactorTimes1000 (target_state 20000000 1)))) / 20000000)\<rfloor> \<and>
    (1 :: int) < 4294967296 \<and>
    (\<exists>s'. setWaveformFrequency Timer32 (target_state 20000000 1) = Some (True, s') \<and>
          uint (DividerInt s') = 2 \<and>
          driver_calls s' = [Synth_Timer32_SetReloadValue (DividerInt s')])) \<and>
   (3599999744 :: int) = \<lfloor>round32 (round32 (of_int (36000000000 div
        uint (FrequencyFactorTimes1000 (target_state 10 0)))) / 10)\<rfloor> \<and>
   (\<exists>s'. setWaveformFrequency Timer32 (target_state 10 0) = Some (False, s') \<and>
          uint (DividerInt s') = 3599999744)"
proof -
  have h1: "Waveform (target_state 20000000 1) = WAVEFORM_SQUARE"
    by (simp add: target_state_simps WAVEFORM_SQUARE_def)
  have h2: "FrequencyFactorTimes1000 (target_state 20000000 1) \<noteq> 0"
    by (simp add: target_state_simps)
  have h3: "Frequency (target_state 20000000 1) = Fin 20000000"
    by (simp add: target_state_simps)
  have h4: "(0 :: rat) < 20000000" by simp
  have "\<lfloor>round32 (9 / 5)\<rfloor> = 1"
    unfolding round32_9_5 by (simp add: floor_eq_iff)
  then have h5: "(1 :: int) = \<lfloor>round32 (round32 (of_int (36000000000 div
      uint (FrequencyFactorTimes1000 (target_state 20000000 1)))) / 20000000)\<rfloor>"
    by (simp add: target_state_simps round32_36000000)
  have h6: "(1 :: int) < 4294967296" by simp
  have k1: "Waveform (target_state 10 0) = WAVEFORM_SQUARE"
    by (simp add: target_state_simps WAVEFORM_SQUARE_def)
  have k2: "FrequencyFactorTimes1000 (target_state 10 0) \<noteq> 0"
    by (simp add: target_state_simps)
  have k3: "Frequency (target_state 10 0) = Fin 10"
    by (simp add: target_state_simps)
  have k4: "(0 :: rat) < 10" by simp
  have k5: "(3599999744 :: int) = \<lfloor>round32 (round32 (of_int (36000000000 div
      uint (FrequencyFactorTimes1000 (target_state 10 0)))) / 10)\<rfloor>"
    using round32_10mHz by (simp add: target_state_simps round32_36000000000)
  have k6: "(3599999744 :: int) < 4294967296" by simp
  have a: "\<exists>s'. setWaveformFrequency Timer32 (target_state 20000000 1) = Some (True, s') \<and>
          uint (DividerInt s') = 2 \<and>
          driver_calls s' = [Synth_Timer32_SetReloadValue (DividerInt s')]"
    using translate32_lower_clip[OF h1 h2 h3 h4 h5 h6] by (simp add: target_state_simps)
  have b: "\<exists>s'. setWaveformFrequency Timer32 (target_state 10 0) = Some (False, s') \<and>
          uint (DividerInt s') = 3599999744"
    using translate32_lower_clip[OF k1 k2 k3 k4 k5 k6] by auto
  from a b h1 h2 h3 h4 h5 h6 k5 show ?thesis by blast
qed

text \<open>
  Claim C2 at its own example, the target 1 mHz with 36 000 000 000 ticks (the float
  35 999 997 952 in the code): the call stores the saturated reload \<open>0xFFFFFFFF\<close> and
  hands it to the driver, and it returns no error.
\<close>

theorem translate32_overflow_not_flagged:
  "setWaveformFrequency Timer32 (target_state 1 0) =
     Some (False, (target_state 1 0)\<lparr>DividerInt := 0xFFFFFFFF,
        driver_calls := [Synth_Timer32_SetReloadValue 0xFFFFFFFF]\<rparr>)"
proof -
  have h1: "Waveform (target_state 1 0) = WAVEFORM_SQUARE"
    by (simp add: target_state_simps WAVEFORM_SQUARE_def)
  have h2: "FrequencyFactorTimes1000 (target_state 1 0) \<noteq> 0"
    by (simp add: target_state_simps)
  have h3: "f2u32 (tPeriod (target_state 1 0)) = 0xFFFFFFFF"
    by (simp add: tPeriod_def target_state_simps int_to_float_36000000000 float32_35999997952)
  show ?thesis
    by (simp add: setWaveformFrequency_square[OF h1 h2] tPeriodInt_def h3 target_state_simps)
qed

text \<open>
  Claim C6. On the 32-bit timer, when the waveform is not the square wave, the call
  returns the error flag and the state is the one before the call: the stored reload is
  unchanged and no call reaches the driver.
\<close>

theorem translate32_non_square:
  assumes "Waveform s \<noteq> WAVEFORM_SQUARE"
  shows "setWaveformFrequency Timer32 s = Some (True, s)"
  using assms by (simp add: setWaveformFrequency_def)

theorem translate32_non_square_witness:
  "Waveform (boot\<lparr>Waveform := WAVEFORM_SINE, DividerInt := 18000\<rparr>) \<noteq> WAVEFORM_SQUARE \<and>
   setWaveformFrequency Timer32 (boot\<lparr>Waveform := WAVEFORM_SINE, DividerInt := 18000\<rparr>)
     = Some (True, boot\<lparr>Waveform := WAVEFORM_SINE, DividerInt := 18000\<rparr>)"
proof -
  have h: "Waveform (boot\<lparr>Waveform := WAVEFORM_SINE, DividerInt := 18000\<rparr>) \<noteq> WAVEFORM_SQUARE"
    by (simp add: WAVEFORM_SINE_def WAVEFORM_SQUARE_def)
  from translate32_non_square[OF h] h show ?thesis by simp
qed

subsection \<open>The 16-bit timer\<close>

text \<open>
  Claim C4. On the 16-bit timer, for a square wave and a non-zero factor (whatever the
  target), the driver receives a reload \<open>r\<close> and a prescaler \<open>p\<close> with
  \<open>p = (ticks >> 16) + 1\<close>, \<open>r = ticks / p\<close> by integer division when \<open>p > 1\<close> and
  \<open>r = ticks\<close> otherwise, and \<open>2 \<le> r < 65536\<close> and \<open>p \<ge> 1\<close>; \<open>ticks\<close> is the tick
  count after the clip at 2.
\<close>

theorem translate16_reload_bounds:
  assumes "Waveform s = WAVEFORM_SQUARE" and "FrequencyFactorTimes1000 s \<noteq> 0"
  shows "\<exists>hasError s' r p.
      setWaveformFrequency Timer16 s = Some (hasError, s') \<and>
      driver_calls s' = driver_calls s @ [Synth_Timer16_SetReloadValue r p] \<and>
      p = drop_bit 16 (tPeriodInt s) + 1 \<and>
      r = (if 1 < p then tPeriodInt s div p else tPeriodInt s) \<and>
      2 \<le> unat r \<and> unat r < 65536 \<and> 1 \<le> unat p"
proof -
  note b = reload16_bounds[OF tPeriodInt_ge2[of s]]
  show ?thesis
    using b(1) b(3) b(4)
    by (simp add: setWaveformFrequency_square[OF assms])
qed

theorem translate16_reload_bounds_witness:
  "Waveform (target_state 18 1) = WAVEFORM_SQUARE \<and>
   FrequencyFactorTimes1000 (target_state 18 1) \<noteq> 0 \<and>
   (\<exists>hasError s' r p.
      setWaveformFrequency Timer16 (target_state 18 1) = Some (hasError, s') \<and>
      driver_calls s' = driver_calls (target_state 18 1) @ [Synth_Timer16_SetReloadValue r p] \<and>
      p = drop_bit 16 (tPeriodInt (target_state 18 1)) + 1 \<and>
      r = (if 1 < p then tPeriodInt (target_state 18 1) div p
           else tPeriodInt (target_state 18 1)) \<and>
      2 \<le> unat r \<and> unat r < 65536 \<and> 1 \<le> unat p)"
proof -
  have h1: "Waveform (target_state 18 1) = WAVEFORM_SQUARE"
    by (simp add: target_state_simps WAVEFORM_SQUARE_def)
  have h2: "FrequencyFactorTimes1000 (target_state 18 1) \<noteq> 0"
    by (simp add: target_state_simps)
  from translate16_reload_bounds[OF h1 h2] h1 h2 show ?thesis by blast
qed

text \<open>
  Claim C5 as it is stated fails at 18 Hz on the 16-bit timer: the tick count is 2 000 000
  and the driver receives the prescaler 31, which is none of 1, 8, 64, 256 and 1024.
\<close>

theorem translate16_prescaler_not_selector_counterexample:
  "setWaveformFrequency Timer16 (target_state 18 1) =
     Some (False, (target_state 18 1)\<lparr>DividerInt := 1999996,
        driver_calls := [Synth_Timer16_SetReloadValue 64516 31]\<rparr>) \<and>
   (31 :: 32 word) \<notin> {1, 8, 64, 256, 1024}"
proof -
  have h1: "Waveform (target_state 18 1) = WAVEFORM_SQUARE"
    by (simp add: target_state_simps WAVEFORM_SQUARE_def)
  have h2: "FrequencyFactorTimes1000 (target_state 18 1) \<noteq> 0"
    by (simp add: target_state_simps)
  have h3: "f2u32 (tPeriod (target_state 18 1)) = 2000000"
    by (simp add: tPeriod_def target_state_simps int_to_float_36000000 float32_numeral)
  have h4: "drop_bit 16 (2000000 :: 32 word) = 30"
    by (simp add: drop_bit_eq_div)
  show ?thesis
    by (simp add: setWaveformFrequency_square[OF h1 h2] tPeriodInt_18Hz h3 h4 target_state_simps)
qed

text \<open>
  Claim C5, as amended. On the 16-bit timer the prescaler given to the driver is the
  number \<open>(ticks >> 16) + 1\<close> itself, between 1 and 65536, not mapped to a selector; the
  reload is \<open>ticks\<close> divided by it, and the stored value is their product, which is at
  most \<open>ticks\<close> and misses it by less than the prescaler.
\<close>

theorem translate16_prescaler_continuous:
  assumes "Waveform s = WAVEFORM_SQUARE" and "FrequencyFactorTimes1000 s \<noteq> 0"
  shows "\<exists>hasError s' r p.
      setWaveformFrequency Timer16 s = Some (hasError, s') \<and>
      driver_calls s' = driver_calls s @ [Synth_Timer16_SetReloadValue r p] \<and>
      unat p = unat (tPeriodInt s) div 65536 + 1 \<and> unat p \<le> 65536 \<and>
      unat r = unat (tPeriodInt s) div unat p \<and>
      unat (DividerInt s') = unat r * unat p \<and>
      unat (DividerInt s') \<le> unat (tPeriodInt s) \<and>
      unat (tPeriodInt s) < unat (DividerInt s') + unat p"
proof -
  define p where "p = drop_bit 16 (tPeriodInt s) + 1"
  define r where "r = (if 1 < p then tPeriodInt s div p else tPeriodInt s)"
  note b = reload16_bounds[OF tPeriodInt_ge2[of s], folded p_def r_def]
  note c = reload16_product[OF tPeriodInt_ge2[of s], folded p_def r_def]
  have res: "setWaveformFrequency Timer16 s =
      Some (f2u32 (tPeriod s) < 2,
        s\<lparr>DividerInt := r * p,
          driver_calls := driver_calls s @ [Synth_Timer16_SetReloadValue r p]\<rparr>)"
    by (simp add: setWaveformFrequency_square[OF assms] p_def r_def)
  show ?thesis
    using b(1) b(2) c by (simp add: res)
qed

theorem translate16_prescaler_continuous_witness:
  "Waveform (target_state 18 1) = WAVEFORM_SQUARE \<and>
   FrequencyFactorTimes1000 (target_state 18 1) \<noteq> 0 \<and>
   (\<exists>hasError s' r p.
      setWaveformFrequency Timer16 (target_state 18 1) = Some (hasError, s') \<and>
      driver_calls s' = driver_calls (target_state 18 1) @ [Synth_Timer16_SetReloadValue r p] \<and>
      unat p = unat (tPeriodInt (target_state 18 1)) div 65536 + 1 \<and> unat p \<le> 65536 \<and>
      unat r = unat (tPeriodInt (target_state 18 1)) div unat p \<and>
      unat (DividerInt s') = unat r * unat p \<and>
      unat (DividerInt s') \<le> unat (tPeriodInt (target_state 18 1)) \<and>
      unat (tPeriodInt (target_state 18 1)) < unat (DividerInt s') + unat p)"
proof -
  have h1: "Waveform (target_state 18 1) = WAVEFORM_SQUARE"
    by (simp add: target_state_simps WAVEFORM_SQUARE_def)
  have h2: "FrequencyFactorTimes1000 (target_state 18 1) \<noteq> 0"
    by (simp add: target_state_simps)
  from translate16_prescaler_continuous[OF h1 h2] h1 h2 show ?thesis by blast
qed

subsection \<open>The realized frequency\<close>

text \<open>
  Claim C8 as it is stated fails three times. In the Hz decade, where the two sides of
  the difference have the same unit, the target 1.8125 gives the reload 19 862 068 on the
  32-bit timer, and the frequency recomputed in floats is \<open>15204353 / 8388608\<close>: its
  relative error \<open>1 / 15204352\<close> exceeds \<open>1 / 19862068\<close>. In the kHz decade the target
  2 gives the reload 18000 and the recomputed frequency 2 (kHz), while
  \<open>target * factor / 1000\<close> is 2000: the two sides are in different units. On the 16-bit
  timer, at 18 Hz, the stored product \<open>64516 * 31 = 1999996\<close> misses the 2 000 000
  ticks by 4, and the relative error exceeds \<open>1 / 1999996\<close>.
\<close>

theorem quantization_bound_counterexample:
  "setWaveformFrequency Timer32 (target_state (29 / 16) 1) =
     Some (False, (target_state (29 / 16) 1)\<lparr>DividerInt := 19862068,
        driver_calls := [Synth_Timer32_SetReloadValue 19862068]\<rparr>) \<and>
   FrequencyFactorTimes1000 (target_state (29 / 16) 1) = 1000 \<and>
   tFrequency ((target_state (29 / 16) 1)\<lparr>DividerInt := 19862068,
        driver_calls := [Synth_Timer32_SetReloadValue 19862068]\<rparr>) = Fin (15204353 / 8388608) \<and>
   \<not> \<bar>(15204353 / 8388608 :: rat) - 29 / 16 * 1000 / 1000\<bar> / (29 / 16) \<le> 1 / 19862068 \<and>
   setWaveformFrequency Timer32 (target_state 2 2) =
     Some (False, (target_state 2 2)\<lparr>DividerInt := 18000,
        driver_calls := [Synth_Timer32_SetReloadValue 18000]\<rparr>) \<and>
   FrequencyFactorTimes1000 (target_state 2 2) = 1000000 \<and>
   tFrequency ((target_state 2 2)\<lparr>DividerInt := 18000,
        driver_calls := [Synth_Timer32_SetReloadValue 18000]\<rparr>) = Fin 2 \<and>
   \<not> \<bar>(2 :: rat) - 2 * 1000000 / 1000\<bar> / 2 \<le> 1 / 18000 \<and>
   setWaveformFrequency Timer16 (target_state 18 1) =
     Some (False, (target_state 18 1)\<lparr>DividerInt := 1999996,
        driver_calls := [Synth_Timer16_SetReloadValue 64516 31]\<rparr>) \<and>
   FrequencyFactorTimes1000 (target_state 18 1) = 1000 \<and>
   tFrequency ((target_state 18 1)\<lparr>DividerInt := 1999996,
        driver_calls := [Synth_Timer16_SetReloadValue 64516 31]\<rparr>) = Fin (9437203 / 524288) \<and>
   \<not> \<bar>(9437203 / 524288 :: rat) - 18 * 1000 / 1000\<bar> / 18 \<le> 1 / 1999996"
proof -
  have r1: "float32 (576000000 / 29) = Fin (of_int 9931034 * 2 powi (24 - 23))"
    by (rule float32_near) simp_all
  have r2: "float32 (9000000 / 4965517) = Fin (of_int 15204353 * 2 powi (0 - 23))"
    by (rule float32_near) simp_all
  have r3: "float32 (9000000 / 499999) = Fin (of_int 9437203 * 2 powi (4 - 23))"
    by (rule float32_near) simp_all
  have r4: "float32 19862068 = Fin 19862068" using float32_exact[of 9931034 1] by simp
  have o1: "Waveform (target_state (29 / 16) 1) = WAVEFORM_SQUARE"
    by (simp add: target_state_simps WAVEFORM_SQUARE_def)
  have o2: "FrequencyFactorTimes1000 (target_state (29 / 16) 1) \<noteq> 0"
    by (simp add: target_state_simps)
  have o3: "f2u32 (tPeriod (target_state (29 / 16) 1)) = 19862068"
    using r1 by (simp add: tPeriod_def target_state_simps int_to_float_36000000)
  have o: "setWaveformFrequency Timer32 (target_state (29 / 16) 1) =
     Some (False, (target_state (29 / 16) 1)\<lparr>DividerInt := 19862068,
        driver_calls := [Synth_Timer32_SetReloadValue 19862068]\<rparr>)"
    by (simp add: setWaveformFrequency_square[OF o1 o2] tPeriodInt_def o3 target_state_simps)
  have o4: "tFrequency ((target_state (29 / 16) 1)\<lparr>DividerInt := 19862068,
        driver_calls := [Synth_Timer32_SetReloadValue 19862068]\<rparr>) = Fin (15204353 / 8388608)"
    using r2 r4
    by (simp add: tFrequency_def target_state_simps int_to_float_36000000 u32_to_float_def)
  have a1: "Waveform (target_state 2 2) = WAVEFORM_SQUARE"
    by (simp add: target_state_simps WAVEFORM_SQUARE_def)
  have a2: "FrequencyFactorTimes1000 (target_state 2 2) \<noteq> 0"
    by (simp add: target_state_simps)
  have a3: "f2u32 (tPeriod (target_state 2 2)) = 18000"
    by (simp add: tPeriod_def target_state_simps int_to_float_36000 float32_numeral)
  have a: "setWaveformFrequency Timer32 (target_state 2 2) =
     Some (False, (target_state 2 2)\<lparr>DividerInt := 18000,
        driver_calls := [Synth_Timer32_SetReloadValue 18000]\<rparr>)"
    by (simp add: setWaveformFrequency_square[OF a1 a2] tPeriodInt_def a3 target_state_simps)
  have b: "tFrequency ((target_state 2 2)\<lparr>DividerInt := 18000,
        driver_calls := [Synth_Timer32_SetReloadValue 18000]\<rparr>) = Fin 2"
    by (simp add: tFrequency_def target_state_simps int_to_float_36000 u32_to_float_def
        float32_numeral)
  have h1: "Waveform (target_state 18 1) = WAVEFORM_SQUARE"
    by (simp add: target_state_simps WAVEFORM_SQUARE_def)
  have h2: "FrequencyFactorTimes1000 (target_state 18 1) \<noteq> 0"
    by (simp add: target_state_simps)
  have h3: "f2u32 (tPeriod (target_state 18 1)) = 2000000"
    by (simp add: tPeriod_def target_state_simps int_to_float_36000000 float32_numeral)
  have h4: "drop_bit 16 (2000000 :: 32 word) = 30"
    by (simp add: drop_bit_eq_div)
  have c: "setWaveformFrequency Timer16 (target_state 18 1) =
     Some (False, (target_state 18 1)\<lparr>DividerInt := 1999996,
        driver_calls := [Synth_Timer16_SetReloadValue 64516 31]\<rparr>)"
    by (simp add: setWaveformFrequency_square[OF h1 h2] tPeriodInt_18Hz h3 h4 target_state_simps)
  have d: "tFrequency ((target_state 18 1)\<lparr>DividerInt := 1999996,
        driver_calls := [Synth_Timer16_SetReloadValue 64516 31]\<rparr>) = Fin (9437203 / 524288)"
    using r3
    by (simp add: tFrequency_def target_state_simps int_to_float_36000000 u32_to_float_def
        float32_numeral)
  have e: "\<not> \<bar>(2 :: rat) - 2 * 1000000 / 1000\<bar> / 2 \<le> 1 / 18000" by simp
  have f: "\<not> \<bar>(9437203 / 524288 :: rat) - 18 * 1000 / 1000\<bar> / 18 \<le> 1 / 1999996" by simp
  have f': "\<not> \<bar>(15204353 / 8388608 :: rat) - 29 / 16 * 1000 / 1000\<bar> / (29 / 16) \<le> 1 / 19862068"
    by simp
  have g: "FrequencyFactorTimes1000 (target_state 2 2) = 1000000"
    "FrequencyFactorTimes1000 (target_state 18 1) = 1000"
    "FrequencyFactorTimes1000 (target_state (29 / 16) 1) = 1000"
    by (simp_all add: target_state_simps)
  from o o4 f' a b c d e f g show ?thesis by blast
qed

text \<open>
  Claim C8, as amended. For a square wave with a positive target \<open>t\<close> whose tick count,
  the float quotient of the code rounded down, is at least 2 and at most \<open>0xFFFFFFFF\<close>,
  on either timer: the call reports no error, and the frequency \<open>x\<close> that
  \<open>printFrequencyAndPeriod\<close> recomputes in floats from the stored integer period, in
  the unit of the current decade like the target, satisfies
  \<open>|x - t| / t \<le> 1 / reload + 2^-21\<close>, where \<open>reload\<close> is the reload value given to the
  driver (the stored period divided by the prescaler; the prescaler is 1 on the 32-bit
  timer) and \<open>2^-21\<close> covers the three roundings to binary32.
\<close>

theorem quantization_bound:
  assumes sq: "Waveform s = WAVEFORM_SQUARE"
    and fac: "FrequencyFactorTimes1000 s \<noteq> 0"
    and fr: "Frequency s = Fin t" and pos: "0 < t"
    and ticks: "ticks = \<lfloor>round32 (round32 (of_int (36000000000 div
        uint (FrequencyFactorTimes1000 s))) / t)\<rfloor>"
    and lo: "2 \<le> ticks" and hi: "ticks < 4294967296"
  shows "\<exists>s' r p x.
      setWaveformFrequency tm s = Some (False, s') \<and>
      driver_calls s' = driver_calls s @
        [case tm of Timer32 \<Rightarrow> Synth_Timer32_SetReloadValue r
                  | Timer16 \<Rightarrow> Synth_Timer16_SetReloadValue r p] \<and>
      unat (DividerInt s') = unat r * unat p \<and>
      tFrequency s' = Fin x \<and>
      \<bar>x - t\<bar> / t \<le> 1 / of_nat (unat r) + 1 / 2 ^ 21"
proof -
  define X where "X = round32 (round32 (of_int (36000000000 div
        uint (FrequencyFactorTimes1000 s))) / t)"
  define n where "n = nat ticks"
  note tk = tPeriodInt_ticks[OF fr pos ticks lo hi]
  have tkX: "ticks = \<lfloor>X\<rfloor>" using ticks by (simp add: X_def)
  have n_int: "int n = ticks" using lo by (simp add: n_def)
  have nX: "of_nat n \<le> X"
  proof -
    have "of_int ticks \<le> X" using tkX by simp
    then show ?thesis using n_int by (metis of_int_of_nat_eq)
  qed
  have Xn: "X < of_nat n + 1"
  proof -
    have "X < of_int ticks + 1" using tkX by linarith
    then show ?thesis using n_int by (metis of_int_of_nat_eq)
  qed
  have n2: "2 \<le> n" using lo by (simp add: n_def)
  have un: "unat (tPeriodInt s) = n" using tk(2) by (simp add: n_def)
  show ?thesis
  proof (cases tm)
    case Timer32
    define s' where "s' = s\<lparr>DividerInt := tPeriodInt s,
        driver_calls := driver_calls s @ [Synth_Timer32_SetReloadValue (tPeriodInt s)]\<rparr>"
    have res: "setWaveformFrequency tm s = Some (False, s')"
      using tk(1) by (simp add: setWaveformFrequency_square[OF sq fac] Timer32 s'_def)
    have fac': "FrequencyFactorTimes1000 s' \<noteq> 0" using fac by (simp add: s'_def)
    have X': "X = round32 (round32 (of_int (36000000000 div
        uint (FrequencyFactorTimes1000 s'))) / t)"
      by (simp add: X_def s'_def)
    have m: "unat (DividerInt s') = n * 1" using un by (simp add: s'_def)
    have "\<exists>w. tFrequency s' = Fin w \<and> \<bar>w - t\<bar> / t \<le> 1 / of_nat n + 1 / 2 ^ 21"
      using fac' pos X' m n2
    proof (rule tFrequency_error)
      show "(0::nat) < 1" by simp
      show "of_nat (n * 1) \<le> X" using nX by simp
      show "X < of_nat (n * 1) + of_nat 1" using Xn by simp
    qed
    then obtain w where "tFrequency s' = Fin w" "\<bar>w - t\<bar> / t \<le> 1 / of_nat n + 1 / 2 ^ 21"
      by blast
    then show ?thesis
      using res un
      by (intro exI[of _ s'] exI[of _ "tPeriodInt s"] exI[of _ 1] exI[of _ w])
         (simp add: Timer32 s'_def)
  next
    case Timer16
    define p where "p = drop_bit 16 (tPeriodInt s) + 1"
    define r where "r = (if 1 < p then tPeriodInt s div p else tPeriodInt s)"
    define s' where "s' = s\<lparr>DividerInt := r * p,
        driver_calls := driver_calls s @ [Synth_Timer16_SetReloadValue r p]\<rparr>"
    note b = reload16_bounds[OF tPeriodInt_ge2[of s], folded p_def r_def]
    note c = reload16_product[OF tPeriodInt_ge2[of s], folded p_def r_def]
    have res: "setWaveformFrequency tm s = Some (False, s')"
      using tk(1) by (simp add: setWaveformFrequency_square[OF sq fac] Timer16 s'_def p_def r_def)
    have fac': "FrequencyFactorTimes1000 s' \<noteq> 0" using fac by (simp add: s'_def)
    have X': "X = round32 (round32 (of_int (36000000000 div
        uint (FrequencyFactorTimes1000 s'))) / t)"
      by (simp add: X_def s'_def)
    have m: "unat (DividerInt s') = unat r * unat p" using c(1) by (simp add: s'_def)
    have p0: "0 < unat p" using b(1) by simp
    have mle: "unat r * unat p \<le> n" using c(2) by (simp add: un)
    have nlt: "n < unat r * unat p + unat p" using c(3) by (simp add: un)
    have lo': "of_nat (unat r * unat p) \<le> X"
    proof -
      have "(of_nat (unat r * unat p) :: rat) \<le> of_nat n" using mle by (simp only: of_nat_le_iff)
      then show ?thesis using nX by linarith
    qed
    have hi': "X < of_nat (unat r * unat p) + of_nat (unat p)"
    proof -
      have "n + 1 \<le> unat r * unat p + unat p" using nlt by simp
      then have "(of_nat (n + 1) :: rat) \<le> of_nat (unat r * unat p + unat p)"
        by (simp only: of_nat_le_iff)
      then show ?thesis using Xn by simp
    qed
    have "\<exists>w. tFrequency s' = Fin w \<and> \<bar>w - t\<bar> / t \<le> 1 / of_nat (unat r) + 1 / 2 ^ 21"
      using fac' pos X' m b(3) p0 lo' hi' by (rule tFrequency_error)
    then obtain w where "tFrequency s' = Fin w"
      "\<bar>w - t\<bar> / t \<le> 1 / of_nat (unat r) + 1 / 2 ^ 21"
      by blast
    then show ?thesis
      using res m
      by (intro exI[of _ s'] exI[of _ r] exI[of _ p] exI[of _ w])
         (simp add: Timer16 s'_def)
  qed
qed

text \<open>
  The theorem at 18 Hz on the 16-bit timer, and at 1.8125 Hz on the 32-bit timer, where
  the bound of the claim fails.
\<close>

theorem quantization_bound_witness:
  "Waveform (target_state 18 1) = WAVEFORM_SQUARE \<and>
   FrequencyFactorTimes1000 (target_state 18 1) \<noteq> 0 \<and>
   Frequency (target_state 18 1) = Fin 18 \<and> (0 :: rat) < 18 \<and>
   (2000000 :: int) = \<lfloor>round32 (round32 (of_int (36000000000 div
       uint (FrequencyFactorTimes1000 (target_state 18 1)))) / 18)\<rfloor> \<and>
   (2 :: int) \<le> 2000000 \<and> (2000000 :: int) < 4294967296 \<and>
   (\<exists>s' r p x.
      setWaveformFrequency Timer16 (target_state 18 1) = Some (False, s') \<and>
      driver_calls s' = driver_calls (target_state 18 1) @
        [case Timer16 of Timer32 \<Rightarrow> Synth_Timer32_SetReloadValue r
                  | Timer16 \<Rightarrow> Synth_Timer16_SetReloadValue r p] \<and>
      unat (DividerInt s') = unat r * unat p \<and>
      tFrequency s' = Fin x \<and>
      \<bar>x - 18\<bar> / 18 \<le> 1 / of_nat (unat r) + 1 / 2 ^ 21) \<and>
   (19862068 :: int) = \<lfloor>round32 (round32 (of_int (36000000000 div
       uint (FrequencyFactorTimes1000 (target_state (29 / 16) 1)))) / (29 / 16))\<rfloor> \<and>
   (\<exists>s' r p x.
      setWaveformFrequency Timer32 (target_state (29 / 16) 1) = Some (False, s') \<and>
      driver_calls s' = driver_calls (target_state (29 / 16) 1) @
        [case Timer32 of Timer32 \<Rightarrow> Synth_Timer32_SetReloadValue r
                  | Timer16 \<Rightarrow> Synth_Timer16_SetReloadValue r p] \<and>
      unat (DividerInt s') = unat r * unat p \<and>
      tFrequency s' = Fin x \<and>
      \<bar>x - 29 / 16\<bar> / (29 / 16) \<le> 1 / of_nat (unat r) + 1 / 2 ^ 21)"
proof -
  have h1: "Waveform (target_state 18 1) = WAVEFORM_SQUARE"
    by (simp add: target_state_simps WAVEFORM_SQUARE_def)
  have h2: "FrequencyFactorTimes1000 (target_state 18 1) \<noteq> 0"
    by (simp add: target_state_simps)
  have h3: "Frequency (target_state 18 1) = Fin 18"
    by (simp add: target_state_simps)
  have h4: "(0 :: rat) < 18" by simp
  have "round32 2000000 = 2000000" using round32_of_int[of 2000000] by simp
  then have h5: "(2000000 :: int) = \<lfloor>round32 (round32 (of_int (36000000000 div
       uint (FrequencyFactorTimes1000 (target_state 18 1)))) / 18)\<rfloor>"
    by (simp add: target_state_simps round32_36000000)
  have h6: "(2 :: int) \<le> 2000000" by simp
  have h7: "(2000000 :: int) < 4294967296" by simp
  have k1: "Waveform (target_state (29 / 16) 1) = WAVEFORM_SQUARE"
    by (simp add: target_state_simps WAVEFORM_SQUARE_def)
  have k2: "FrequencyFactorTimes1000 (target_state (29 / 16) 1) \<noteq> 0"
    by (simp add: target_state_simps)
  have k3: "Frequency (target_state (29 / 16) 1) = Fin (29 / 16)"
    by (simp add: target_state_simps)
  have k4: "(0 :: rat) < 29 / 16" by simp
  have "round32 (576000000 / 29) = of_int 9931034 * 2 powi (24 - 23)"
    by (rule round32_near) simp_all
  then have k5: "(19862068 :: int) = \<lfloor>round32 (round32 (of_int (36000000000 div
       uint (FrequencyFactorTimes1000 (target_state (29 / 16) 1)))) / (29 / 16))\<rfloor>"
    by (simp add: target_state_simps round32_36000000)
  have k6: "(2 :: int) \<le> 19862068" by simp
  have k7: "(19862068 :: int) < 4294967296" by simp
  note a = quantization_bound[OF h1 h2 h3 h4 h5 h6 h7, of Timer16]
  note b = quantization_bound[OF k1 k2 k3 k4 k5 k6 k7, of Timer32]
  show ?thesis
    by (intro conjI) (rule h1 h2 h3 h4 h5 h6 h7 k5 a b)+
qed

section \<open>The numeric entry and the slider\<close>

subsection \<open>setFrequency\<close>

text \<open>
  Claim C3 as it is stated fails at 1000: the loop condition is \<^verbatim>\<open>aValue > 1000\<close>, so
  the loop body does not run, and 1000 is stored as 1000 in the Hz decade (index 1), not
  as 1 in the next decade. It also fails for a large \<open>f\<close>: at \<open>2^103\<close>, about \<open>10^31\<close>,
  the loop ends with the index 11, the 32-bit factor \<open>1000^11\<close> wraps around to 0, and
  the translation divides by zero.
\<close>

theorem setFrequency_1000_counterexample:
  "setFrequency_loop (Fin 1000) 1 = Some (Fin 1000, 1) \<and>
   setFrequency Timer32 (Fin 1000) boot =
     Some (boot\<lparr>DividerInt := 36000, Frequency := Fin 1000, FrequencyFactorTimes1000 := 1000,
       FrequencyFactorIndex := 1, driver_calls := [Synth_Timer32_SetReloadValue 36000]\<rparr>) \<and>
   setFrequency_loop (Fin (2 ^ 103)) 1 = Some (Fin (div1000 10 (2 ^ 103)), 11) \<and>
   1 \<le> div1000 10 (2 ^ 103) \<and>
   (1000 :: 32 word) ^ 11 = 0 \<and>
   setFrequency Timer32 (Fin (2 ^ 103)) boot = None"
proof -
  have l: "setFrequency_loop (Fin 1000) 1 = Some (Fin 1000, 1)"
    by (simp add: setFrequency_loop_stop fgt_def)
  have a: "setFrequency Timer32 (Fin 1000) boot =
     Some (boot\<lparr>DividerInt := 36000, Frequency := Fin 1000, FrequencyFactorTimes1000 := 1000,
       FrequencyFactorIndex := 1, driver_calls := [Synth_Timer32_SetReloadValue 36000]\<rparr>)"
    by (simp add: setFrequency_def l setFrequencyFactor_uint setWaveformFrequency_def boot_def
        WAVEFORM_SQUARE_def int_to_float_36000000 float32_numeral Let_def)
  define f :: rat where "f = 2 ^ 103"
  have one: "1 \<le> f * ((1 - 1 / 2 ^ 24) / 1000) ^ 10" by (simp add: f_def power_divide)
  have big: "\<forall>j<10. 1000 < div1000 j f"
  proof (intro allI impI)
    fix j :: nat assume j: "j < 10"
    have "(1000::rat) < f * ((1 - 1 / 2 ^ 24) / 1000) ^ 9" by (simp add: f_def power_divide)
    also have "\<dots> \<le> f * ((1 - 1 / 2 ^ 24) / 1000) ^ j"
    proof -
      have "((1 - 1 / 2 ^ 24) / 1000 :: rat) ^ 9 \<le> ((1 - 1 / 2 ^ 24) / 1000) ^ j"
        using j by (intro power_decreasing) simp_all
      then show ?thesis by (simp add: f_def)
    qed
    also have "\<dots> \<le> div1000 j f" using j by (intro div1000_lower[OF one]) simp
    finally show "1000 < div1000 j f" .
  qed
  have "div1000 10 f \<le> f * ((1 + 1 / 2 ^ 24) / 1000) ^ 10" using big by (rule div1000_upper)
  also have "\<dots> \<le> 1000" by (simp add: f_def power_divide)
  finally have small: "div1000 10 f \<le> 1000" .
  have v1: "1 \<le> div1000 10 f" using div1000_lower[OF one, of 10] one by simp
  have "f < 2 ^ 127" by (simp add: f_def)
  from div1000_bounded[OF big this]
  have "setFrequency_loop (Fin f) 1 = Some (Fin (div1000 10 f), 1 + of_nat 10)"
    using small by (rule setFrequency_loop_div1000)
  then have m: "setFrequency_loop (Fin f) 1 = Some (Fin (div1000 10 f), 11)" by simp
  have z: "(1000 :: 32 word) ^ 11 = 0" by simp
  have nl: "\<not> div1000 10 f < 1" using v1 by simp
  have b: "setFrequency Timer32 (Fin f) boot = None"
    using nl by (simp add: setFrequency_def m setFrequencyFactor_uint setWaveformFrequency_def
        boot_def WAVEFORM_SQUARE_def)
  from l a m v1 z b show ?thesis unfolding f_def by blast
qed

text \<open>
  Claim C3, as amended. For the square waveform and every \<open>f\<close> with
  \<open>0 < f \<le> 999999 * 10^24\<close>, \<open>setFrequency\<close> returns. If \<open>f < 1\<close> it stores the float
  product \<open>f * 1000\<close> with the index 0 (mHz) and the factor 1. Otherwise it divides by
  1000, each quotient rounded to binary32, while the value is greater than 1000: with
  \<open>k \<le> 9\<close> the number of divisions, the stored target is the value after the \<open>k\<close>
  divisions, between 1 and 1000, the index is \<open>k + 1\<close>, and the 32-bit factor is
  \<open>1000^(k+1)\<close> modulo \<open>2^32\<close>, which is not zero.
\<close>

theorem setFrequency_normalizes:
  assumes sq: "Waveform s = WAVEFORM_SQUARE" and pos: "0 < f" and le: "f \<le> 999999 * 10 ^ 24"
  shows "\<exists>s' k. setFrequency tm (Fin f) s = Some s' \<and>
     (if f < 1
      then Frequency s' = Fin (round32 (f * 1000)) \<and> FrequencyFactorIndex s' = 0 \<and>
           FrequencyFactorTimes1000 s' = 1
      else k \<le> 9 \<and> (\<forall>j<k. 1000 < div1000 j f) \<and>
           div1000 k f \<le> 1000 \<and> 1 \<le> div1000 k f \<and>
           Frequency s' = Fin (div1000 k f) \<and> FrequencyFactorIndex s' = of_nat (k + 1) \<and>
           unat (FrequencyFactorTimes1000 s') = 1000 ^ (k + 1) mod 2 ^ 32 \<and>
           FrequencyFactorTimes1000 s' \<noteq> 0)"
proof -
  from decade_exists[OF le]
  obtain k where k9: "k \<le> 9" and big: "\<forall>j<k. 1000 < div1000 j f" and up: "div1000 k f \<le> 1000"
    by blast
  define v where "v = div1000 k f"
  have f127: "f < 2 ^ 127" using le by simp
  have lp: "setFrequency_loop (Fin f) 1 = Some (Fin v, 1 + of_nat k)"
    unfolding v_def using div1000_bounded[OF big f127] up by (rule setFrequency_loop_div1000)
  have i: "unat (1 + of_nat k :: 8 word) = k + 1"
  proof -
    have "(1 + of_nat k :: 8 word) = of_nat (k + 1)" by simp
    moreover have "unat (of_nat (k + 1) :: 8 word) = k + 1"
      using k9 by (simp only: unat_of_nat) simp
    ultimately show ?thesis by simp
  qed
  show ?thesis
  proof (cases "f < 1")
    case True
    have k0: "k = 0"
    proof (rule ccontr)
      assume "k \<noteq> 0"
      then have "1000 < div1000 0 f" using big by blast
      then show False using True by simp
    qed
    have fl: "flt (Fin v) (Fin 1)" using True k0 by (simp add: v_def)
    have fac: "(1000 :: 32 word) ^ unat (if flt (Fin v) (Fin 1) then 0 else (1 + of_nat k :: 8 word)) \<noteq> 0"
      using fl by simp
    have "\<bar>f * 1000\<bar> < 2 ^ 127" using True pos by simp
    then have pr: "fmul (Fin f) (Fin 1000) = Fin (round32 (f * 1000))"
      by (simp add: float32_Fin)
    from setFrequency_square[OF sq lp fac, of tm] fl True k0 pr
    show ?thesis by (auto simp: v_def simp del: fmul.simps)
  next
    case False
    have v1: "1 \<le> v" unfolding v_def using big False by (intro div1000_ge_1) simp_all
    then have nfl: "\<not> flt (Fin v) (Fin 1)" by simp
    have nz: "(1000 :: 32 word) ^ (k + 1) \<noteq> 0"
      using k9 by (intro factor_nonzero) simp
    moreover have "unat (if flt (Fin v) (Fin 1) then 0 else (1 + of_nat k :: 8 word)) = k + 1"
      using nfl i by (simp only: if_False)
    ultimately have fac: "(1000 :: 32 word) ^ unat (if flt (Fin v) (Fin 1) then 0 else (1 + of_nat k :: 8 word)) \<noteq> 0"
      by (simp only: not_False_eq_True)
    from setFrequency_square[OF sq lp fac, of tm]
    obtain s' where r: "setFrequency tm (Fin f) s = Some s'" "Frequency s' = Fin v"
      "FrequencyFactorIndex s' = 1 + of_nat k" "FrequencyFactorTimes1000 s' = 1000 ^ (k + 1)"
      using nfl i by auto
    have "FrequencyFactorIndex s' = of_nat (k + 1)" using r(3) by simp
    moreover have "unat (FrequencyFactorTimes1000 s') = 1000 ^ (k + 1) mod 2 ^ 32"
      unfolding r(4) by (rule unat_factor)
    moreover have "FrequencyFactorTimes1000 s' \<noteq> 0" unfolding r(4) by (rule nz)
    ultimately show ?thesis
      using r(1,2) up v1 k9 big False
      unfolding v_def by (intro exI[of _ s'] exI[of _ k]) simp
  qed
qed

text \<open>
  The theorem at 2 500 000 Hz: two divisions, and 2.5 is stored in the MHz decade with
  the factor \<open>10^9\<close>. At 1100 Hz there is one division, and the float nearest to 1.1
  is stored in the kHz decade.
\<close>

theorem setFrequency_normalizes_witness:
  "Waveform boot = WAVEFORM_SQUARE \<and> (0 :: rat) < 2500000 \<and> (2500000 :: rat) \<le> 999999 * 10 ^ 24 \<and>
   (\<exists>s' k. setFrequency Timer32 (Fin 2500000) boot = Some s' \<and>
     (if (2500000 :: rat) < 1
      then Frequency s' = Fin (round32 (2500000 * 1000)) \<and> FrequencyFactorIndex s' = 0 \<and>
           FrequencyFactorTimes1000 s' = 1
      else k \<le> 9 \<and> (\<forall>j<k. 1000 < div1000 j 2500000) \<and>
           div1000 k 2500000 \<le> 1000 \<and> 1 \<le> div1000 k 2500000 \<and>
           Frequency s' = Fin (div1000 k 2500000) \<and> FrequencyFactorIndex s' = of_nat (k + 1) \<and>
           unat (FrequencyFactorTimes1000 s') = 1000 ^ (k + 1) mod 2 ^ 32 \<and>
           FrequencyFactorTimes1000 s' \<noteq> 0)) \<and>
   div1000 0 2500000 = 2500000 \<and> div1000 1 2500000 = 2500 \<and> div1000 2 2500000 = 5 / 2 \<and>
   (\<exists>s'. setFrequency Timer32 (Fin 1100) boot = Some s' \<and>
      Frequency s' = Fin (9227469 / 8388608) \<and> FrequencyFactorIndex s' = 2 \<and>
      FrequencyFactorTimes1000 s' = 1000000)"
proof -
  have h1: "Waveform boot = WAVEFORM_SQUARE" by (simp add: boot_def WAVEFORM_SQUARE_def)
  have h2: "(0 :: rat) < 2500000" by simp
  have h3: "(2500000 :: rat) \<le> 999999 * 10 ^ 24" by simp
  have r1: "round32 2500 = 2500" using round32_of_int[of 2500] by simp
  have r2: "round32 (5 / 2) = 5 / 2" using round32_exact[of 5 "- 1"] by simp
  have d: "div1000 0 2500000 = 2500000" "div1000 1 2500000 = 2500" "div1000 2 2500000 = 5 / 2"
    by (simp_all add: numeral_2_eq_2 r1 r2)
  have "round32 (11 / 10) = of_int 9227469 * 2 powi (0 - 23)"
    by (rule round32_near) simp_all
  then have r3: "round32 (11 / 10) = 9227469 / 8388608" by simp
  have e: "div1000 0 1100 = 1100" "div1000 1 1100 = 9227469 / 8388608"
    by (simp_all add: r3)
  have k2: "(0 :: rat) < 1100" by simp
  have k3: "(1100 :: rat) \<le> 999999 * 10 ^ 24" by simp
  from setFrequency_normalizes[OF h1 k2 k3, of Timer32]
  obtain s' k where s': "setFrequency Timer32 (Fin 1100) boot = Some s'"
    and k: "\<forall>j<k. 1000 < div1000 j 1100" "div1000 k 1100 \<le> 1000"
    and st: "Frequency s' = Fin (div1000 k 1100)" "FrequencyFactorIndex s' = of_nat (k + 1)"
      "unat (FrequencyFactorTimes1000 s') = 1000 ^ (k + 1) mod 2 ^ 32"
    by auto
  have "k = 1"
  proof (rule div1000_stop_unique[OF k])
    show "\<forall>j<1. 1000 < div1000 j 1100" by simp
    show "div1000 1 1100 \<le> 1000" by (simp only: e)
  qed
  then have "Frequency s' = Fin (9227469 / 8388608)" "FrequencyFactorIndex s' = 2"
    "unat (FrequencyFactorTimes1000 s') = 1000000"
    using st e by simp_all
  moreover from this(3) have "FrequencyFactorTimes1000 s' = 1000000"
    by (simp add: word_unat_eq_iff)
  ultimately have b: "\<exists>s'. setFrequency Timer32 (Fin 1100) boot = Some s' \<and>
      Frequency s' = Fin (9227469 / 8388608) \<and> FrequencyFactorIndex s' = 2 \<and>
      FrequencyFactorTimes1000 s' = 1000000"
    using s' by blast
  from setFrequency_normalizes[OF h1 h2 h3, of Timer32] h1 h2 h3 d b show ?thesis by blast
qed

subsection \<open>The number from the keypad\<close>

text \<open>
  Claim C9 as it is stated fails for a negative number: after the initialisation
  (200 Hz, reload 180000), \<open>doSetFrequency\<close> with \<open>-5\<close> stores the target \<open>-5000\<close> in
  the mHz decade and the reload 2, whatever the library computes for the slider.
\<close>

theorem doSetFrequency_negative_counterexample:
  "(\<forall>lib. (initFrequencyGeneratorPage Timer32 boot \<bind> doSetFrequency lib Timer32 (Fin (- 5))) =
     Some (boot\<lparr>DividerInt := 2, Frequency := Fin (- 5000), FrequencyFactorTimes1000 := 1,
        FrequencyFactorIndex := 0, isOutputEnabled := True,
        driver_calls := [Synth_Timer32_SetReloadValue 180000, Synth_Timer32_SetReloadValue 2],
        SliderActualValue :=
          map_option (\<lambda>v. v - 100) (f2u16 (fmul (log10f lib (Fin (- 5000))) (Fin 100)))\<rparr>)) \<and>
   initFrequencyGeneratorPage Timer32 boot =
     Some (boot\<lparr>DividerInt := 180000, Frequency := Fin 200, FrequencyFactorTimes1000 := 1000,
        FrequencyFactorIndex := 1, isOutputEnabled := True,
        driver_calls := [Synth_Timer32_SetReloadValue 180000]\<rparr>)"
proof -
  have l: "setFrequency_loop (Fin (- 5)) 1 = Some (Fin (- 5), 1)"
    by (simp add: setFrequency_loop_stop fgt_def)
  have "doSetFrequency lib Timer32 (Fin (- 5))
      (boot\<lparr>DividerInt := 180000, Frequency := Fin 200, FrequencyFactorTimes1000 := 1000,
        FrequencyFactorIndex := 1, isOutputEnabled := True,
        driver_calls := [Synth_Timer32_SetReloadValue 180000]\<rparr>) =
     Some (boot\<lparr>DividerInt := 2, Frequency := Fin (- 5000), FrequencyFactorTimes1000 := 1,
        FrequencyFactorIndex := 0, isOutputEnabled := True,
        driver_calls := [Synth_Timer32_SetReloadValue 180000, Synth_Timer32_SetReloadValue 2],
        SliderActualValue :=
          map_option (\<lambda>v. v - 100) (f2u16 (fmul (log10f lib (Fin (- 5000))) (Fin 100)))\<rparr>)"
    for lib
    by (simp add: doSetFrequency_def setFrequency_def l setFrequencyFactor_uint
        setWaveformFrequency_def printFrequencyAndPeriod_def tSliderValue_def
        boot_def WAVEFORM_SQUARE_def int_to_float_36000000000 float32_neg_numeral
        f2u32_float32_nonpos Let_def)
  then have "(initFrequencyGeneratorPage Timer32 boot \<bind> doSetFrequency lib Timer32 (Fin (- 5))) =
     Some (boot\<lparr>DividerInt := 2, Frequency := Fin (- 5000), FrequencyFactorTimes1000 := 1,
        FrequencyFactorIndex := 0, isOutputEnabled := True,
        driver_calls := [Synth_Timer32_SetReloadValue 180000, Synth_Timer32_SetReloadValue 2],
        SliderActualValue :=
          map_option (\<lambda>v. v - 100) (f2u16 (fmul (log10f lib (Fin (- 5000))) (Fin 100)))\<rparr>)"
    for lib
    by (simp only: init_page bind.bind_lunit)
  then show ?thesis by (simp only: init_page simp_thms)
qed

text \<open>
  Claim C9, as amended. With a local display, \<open>doGetFrequency\<close> ignores a NaN from the
  number pad (its cancel value): the stored target, the decade index and the factor
  are unchanged, and the reload is the one that translating the unchanged target gives.
  Every other value, positive or not, is stored as the target and translated.
\<close>

theorem doGetFrequency_stores_unless_nan:
  assumes fac: "FrequencyFactorTimes1000 s \<noteq> 0"
  shows "\<exists>s'. doGetFrequency lib tm v s = Some s' \<and>
     Frequency s' = (if isnan v then Frequency s else v) \<and>
     FrequencyFactorIndex s' = FrequencyFactorIndex s \<and>
     FrequencyFactorTimes1000 s' = FrequencyFactorTimes1000 s \<and>
     (\<exists>e s1. setWaveformFrequency tm (s\<lparr>Frequency := (if isnan v then Frequency s else v)\<rparr>)
                = Some (e, s1) \<and> DividerInt s' = DividerInt s1)"
proof -
  define s0 where "s0 = s\<lparr>Frequency := (if isnan v then Frequency s else v)\<rparr>"
  have s0': "(if \<not> isnan v then s\<lparr>Frequency := v\<rparr> else s) = s0"
    by (simp add: s0_def)
  have f0: "FrequencyFactorTimes1000 s0 \<noteq> 0" using fac by (simp add: s0_def)
  from setWaveformFrequency_returns[OF f0, of tm]
  obtain e s1 where r: "setWaveformFrequency tm s0 = Some (e, s1)" by blast
  note k = setWaveformFrequency_keeps[OF r]
  define sl0 where "sl0 = tSliderValue lib s0"
  have p0: "printFrequencyAndPeriod lib s0 = Some (s0\<lparr>SliderActualValue := sl0\<rparr>)"
    using f0 by (simp add: printFrequencyAndPeriod_def sl0_def)
  have t1: "setWaveformFrequency tm (s0\<lparr>SliderActualValue := sl0\<rparr>)
      = Some (e, s1\<lparr>SliderActualValue := sl0\<rparr>)"
    by (simp add: setWaveformFrequency_slider r)
  have f1: "FrequencyFactorTimes1000 (s1\<lparr>SliderActualValue := sl0\<rparr>) \<noteq> 0"
    using f0 k(3) by simp
  then obtain s' where p1: "printFrequencyAndPeriod lib (s1\<lparr>SliderActualValue := sl0\<rparr>) = Some s'"
    and s': "Frequency s' = Frequency s1" "FrequencyFactorIndex s' = FrequencyFactorIndex s1"
      "FrequencyFactorTimes1000 s' = FrequencyFactorTimes1000 s1" "DividerInt s' = DividerInt s1"
    by (simp add: printFrequencyAndPeriod_def)
  have "doGetFrequency lib tm v s = Some s'"
    by (simp only: doGetFrequency_def s0' drawFrequencyGeneratorPage_def
        SetWaveformFrequencyAndPrintValues_def bind.bind_lunit p0 t1 p1 prod.case)
  moreover have "Frequency s' = (if isnan v then Frequency s else v)"
    using s'(1) k(1) by (simp add: s0_def)
  moreover have "FrequencyFactorIndex s' = FrequencyFactorIndex s"
    using s'(2) k(2) by (simp add: s0_def)
  moreover have "FrequencyFactorTimes1000 s' = FrequencyFactorTimes1000 s"
    using s'(3) k(3) by (simp add: s0_def)
  ultimately show ?thesis using r s'(4) unfolding s0_def by blast
qed

theorem doGetFrequency_stores_unless_nan_witness:
  "FrequencyFactorTimes1000 (target_state 200 1) \<noteq> 0 \<and>
   (\<exists>s'. doGetFrequency libm_truncating Timer32 NaN (target_state 200 1) = Some s' \<and>
      Frequency s' = Fin 200 \<and> FrequencyFactorIndex s' = 1 \<and>
      FrequencyFactorTimes1000 s' = 1000) \<and>
   (\<exists>s'. doGetFrequency libm_truncating Timer32 (Fin (- 5)) (target_state 200 1) = Some s' \<and>
      Frequency s' = Fin (- 5) \<and> FrequencyFactorIndex s' = 1)"
proof -
  have h: "FrequencyFactorTimes1000 (target_state 200 1) \<noteq> 0"
    by (simp add: target_state_simps)
  have a: "\<exists>s'. doGetFrequency libm_truncating Timer32 NaN (target_state 200 1) = Some s' \<and>
      Frequency s' = Fin 200 \<and> FrequencyFactorIndex s' = 1 \<and>
      FrequencyFactorTimes1000 s' = 1000"
    using doGetFrequency_stores_unless_nan[OF h, of libm_truncating Timer32 NaN]
    by (auto simp: target_state_simps)
  have b: "\<exists>s'. doGetFrequency libm_truncating Timer32 (Fin (- 5)) (target_state 200 1) = Some s' \<and>
      Frequency s' = Fin (- 5) \<and> FrequencyFactorIndex s' = 1"
    using doGetFrequency_stores_unless_nan[OF h, of libm_truncating Timer32 "Fin (- 5)"]
    by (auto simp: target_state_simps)
  from h a b show ?thesis by blast
qed

subsection \<open>The slider position\<close>

text \<open>
  Claim C10. The page starts with the 10 Hz range active. After the initialisation, the
  number 5 from the numeric entry is stored as 5 Hz, below 10; with a \<^verbatim>\<open>log10f\<close> that is
  within \<open>1/1024\<close> of the logarithm, the float \<open>log10f(5) * 100\<close> is truncated to 69, the
  subtraction of 100 wraps around in 16 bits, and the slider is set to 65505, far above
  300.
\<close>

theorem slider_underflow_10Hz:
  assumes "log10f_accurate lib"
  shows "is10HzRange boot \<and>
   (initFrequencyGeneratorPage Timer32 boot \<bind> doSetFrequency lib Timer32 (Fin 5)) =
     Some (boot\<lparr>DividerInt := 7200000, Frequency := Fin 5, FrequencyFactorTimes1000 := 1000,
        FrequencyFactorIndex := 1, isOutputEnabled := True,
        driver_calls := [Synth_Timer32_SetReloadValue 180000, Synth_Timer32_SetReloadValue 7200000],
        SliderActualValue := Some 65505\<rparr>) \<and>
   f2u16 (fmul (log10f lib (Fin 5)) (Fin 100)) = Some 69 \<and> (69 :: 16 word) - 100 = 65505 \<and>
   300 < unat (65505 :: 16 word)"
proof -
  note sl = slider_5[OF assms]
  have l: "setFrequency_loop (Fin 5) 1 = Some (Fin 5, 1)"
    by (simp add: setFrequency_loop_stop fgt_def)
  have "doSetFrequency lib Timer32 (Fin 5)
      (boot\<lparr>DividerInt := 180000, Frequency := Fin 200, FrequencyFactorTimes1000 := 1000,
        FrequencyFactorIndex := 1, isOutputEnabled := True,
        driver_calls := [Synth_Timer32_SetReloadValue 180000]\<rparr>) =
     Some (boot\<lparr>DividerInt := 7200000, Frequency := Fin 5, FrequencyFactorTimes1000 := 1000,
        FrequencyFactorIndex := 1, isOutputEnabled := True,
        driver_calls := [Synth_Timer32_SetReloadValue 180000, Synth_Timer32_SetReloadValue 7200000],
        SliderActualValue := Some 65505\<rparr>)"
    by (simp add: doSetFrequency_def setFrequency_def l setFrequencyFactor_uint
        setWaveformFrequency_def printFrequencyAndPeriod_def tSliderValue_def sl
        boot_def WAVEFORM_SQUARE_def int_to_float_36000000 float32_numeral Let_def)
  then have "(initFrequencyGeneratorPage Timer32 boot \<bind> doSetFrequency lib Timer32 (Fin 5)) =
     Some (boot\<lparr>DividerInt := 7200000, Frequency := Fin 5, FrequencyFactorTimes1000 := 1000,
        FrequencyFactorIndex := 1, isOutputEnabled := True,
        driver_calls := [Synth_Timer32_SetReloadValue 180000, Synth_Timer32_SetReloadValue 7200000],
        SliderActualValue := Some 65505\<rparr>)"
    by (simp only: init_page bind.bind_lunit)
  moreover have "is10HzRange boot" by (simp add: boot_def)
  ultimately show ?thesis by (simp add: sl)
qed

theorem slider_underflow_10Hz_witness:
  "log10f_accurate libm_truncating \<and>
   is10HzRange boot \<and>
   (initFrequencyGeneratorPage Timer32 boot \<bind> doSetFrequency libm_truncating Timer32 (Fin 5)) =
     Some (boot\<lparr>DividerInt := 7200000, Frequency := Fin 5, FrequencyFactorTimes1000 := 1000,
        FrequencyFactorIndex := 1, isOutputEnabled := True,
        driver_calls := [Synth_Timer32_SetReloadValue 180000, Synth_Timer32_SetReloadValue 7200000],
        SliderActualValue := Some 65505\<rparr>) \<and>
   f2u16 (fmul (log10f libm_truncating (Fin 5)) (Fin 100)) = Some 69"
  using slider_underflow_10Hz[OF libm_truncating_log10f] libm_truncating_log10f by simp

subsection \<open>The round trip of the slider\<close>

text \<open>
  Claim C7. For a position \<open>s\<close> from 0 to 300, in either range, with a non-zero factor:
  \<open>doFrequencySlider\<close> stores the float of \<open>pow(10, t)\<close>, and the position that
  \<open>printFrequencyAndPeriod\<close> computes back from it, in the same call, is \<open>s\<close> or
  \<open>s - 1\<close>. The theorem asks of the library that \<^verbatim>\<open>pow\<close> and \<^verbatim>\<open>log10f\<close> are as accurate
  as \<open>pow_accurate\<close> and \<open>log10f_accurate\<close> say, and, for the position 0 in the 10 Hz
  range only, that \<^verbatim>\<open>log10f(10)\<close> is exactly 1: there the product with 100 must reach
  100 for the subtraction of 100 not to wrap around (\<open>slider_zero_wraps\<close> above is the
  case of a float below 1).
\<close>

theorem slider_round_trip:
  assumes pw: "pow_accurate lib" and lg: "log10f_accurate lib"
    and ten: "is10HzRange st \<Longrightarrow> s = 0 \<Longrightarrow> log10f lib (Fin 10) = Fin 1"
    and s: "s \<le> 300" and fac: "FrequencyFactorTimes1000 st \<noteq> 0"
  shows "\<exists>st' v. doFrequencySlider lib tm (of_nat s) st = Some st' \<and>
           is10HzRange st' = is10HzRange st \<and>
           SliderActualValue st' = Some v \<and> (unat v = s \<or> unat v + 1 = s)"
proof -
  define a where "a = round32 (of_nat s / 100)"
  define b where "b = round32 (a + 1)"
  define t where "t = (if is10HzRange st then b else a)"
  define N where "N = (if is10HzRange st then s + 100 else s)"
  note x = slider_exponent[OF s, folded a_def b_def]
  have t0: "0 \<le> t" using x(4,6) by (simp add: t_def)
  have tN: "\<bar>100 * t - of_nat N\<bar> \<le> 1 / 1000"
  proof (cases "is10HzRange st")
    case True
    have "\<bar>100 * b - (of_nat s + 100)\<bar> \<le> 1 / 1000" using x(7) by linarith
    then show ?thesis using True by (simp add: t_def N_def)
  next
    case False
    have "\<bar>100 * a - of_nat s\<bar> \<le> 1 / 1000" using x(5) by linarith
    then show ?thesis using False by (simp add: t_def N_def)
  qed
  have "(of_nat N :: rat) \<le> of_nat 400" using s by (simp only: of_nat_le_iff) (simp add: N_def)
  then have N4: "(of_nat N :: rat) \<le> 400" by simp
  have t5: "t \<le> 4999 / 1000" using tN N4 by linarith
  have tv: "Fin t = (if is10HzRange st
        then fadd (fdiv (u16_to_float (of_nat s)) (int_to_float (FREQ_SLIDER_MAX_VALUE div 3))) (Fin 1)
        else fdiv (u16_to_float (of_nat s)) (int_to_float (FREQ_SLIDER_MAX_VALUE div 3)))"
    by (simp add: t_def x(1,2,3) del: fdiv.simps fadd.simps)
  have tf: "round32 t = t" by (simp add: t_def a_def b_def round32_idem)
  from pow_stored[OF pw tf t0] t5
  obtain p where p: "pow lib (Fin 10) (Fin t) = Fin p"
    and st: "f64_to_f32 (Fin p) = Fin (round32 p)"
    and ep: "\<bar>real_of_rat p - 10 powr real_of_rat t\<bar> \<le> 10 powr real_of_rat t / 2 ^ 30"
    and eF: "\<bar>real_of_rat (round32 p) - 10 powr real_of_rat t\<bar> \<le> 10 powr real_of_rat t / 2 ^ 23"
    by auto
  define F where "F = round32 p"
  have Ff: "round32 F = F" by (simp add: F_def round32_idem)
  have Fq: "Fin F = f64_to_f32 (pow lib (Fin 10) (Fin t))" by (simp add: p st F_def del: f64_to_f32.simps)
  from doFrequencySlider_Some[OF fac tv Fq, of tm]
  obtain st' where r: "doFrequencySlider lib tm (of_nat s) st = Some st'"
    and r10: "is10HzRange st' = is10HzRange st"
    and rs: "SliderActualValue st' =
             (if is10HzRange st
              then map_option (\<lambda>v. v - 100) (f2u16 (fmul (log10f lib (Fin F)) (Fin 100)))
              else f2u16 (fmul (log10f lib (Fin F)) (Fin 100)))"
    by blast
  have "\<exists>v. SliderActualValue st' = Some v \<and> (unat v = s \<or> unat v + 1 = s)"
  proof (cases "s = 0")
    case True
    have a0: "a = 0" using True by (simp add: a_def round32_0)
    show ?thesis
    proof (cases "is10HzRange st")
      case r10: True
      have b1: "b = 1" using round32_of_int[of 1] by (simp add: b_def a0)
      have "\<bar>real_of_rat p - 10\<bar> \<le> 10 / 2 ^ 30" using ep r10 by (simp add: t_def b1)
      also have "\<dots> \<le> real_of_rat (1 / 4194304)" by (simp add: of_rat_divide)
      finally have "\<bar>real_of_rat p - real_of_rat 10\<bar> \<le> real_of_rat (1 / 4194304)" by simp
      then have "\<bar>p - 10\<bar> \<le> 1 / 4194304" by (rule of_rat_abs_diff_le)
      then have F10: "F = 10" unfolding F_def by (rule round32_eq_10)
      have "fmul (log10f lib (Fin 10)) (Fin 100) = Fin 100"
        using ten[OF r10 True] by (simp add: float32_numeral)
      then have "SliderActualValue st' = Some 0" using rs r10 by (simp add: F10)
      then show ?thesis using True by simp
    next
      case r1: False
      have "\<bar>real_of_rat p - 1\<bar> \<le> 1 / 2 ^ 30" using ep r1 by (simp add: t_def a0)
      also have "\<dots> \<le> real_of_rat (1 / 67108864)" by (simp add: of_rat_divide)
      finally have "\<bar>real_of_rat p - real_of_rat 1\<bar> \<le> real_of_rat (1 / 67108864)" by simp
      then have "\<bar>p - 1\<bar> \<le> 1 / 67108864" by (rule of_rat_abs_diff_le)
      then have F1: "F = 1" unfolding F_def by (rule round32_eq_1)
      have "\<exists>y. log10f lib (Fin 1) = Fin y \<and> \<bar>real_of_rat y - log 10 (real_of_rat 1)\<bar> \<le> 1 / 1024"
        using lg[unfolded log10f_accurate_def, rule_format, of 1] round32_of_int[of 1] by simp
      then obtain y where y: "log10f lib (Fin 1) = Fin y"
        and e: "\<bar>real_of_rat y - real_of_rat 0\<bar> \<le> real_of_rat (1 / 1024)"
        by (auto simp: of_rat_divide)
      from of_rat_abs_diff_le[OF e] have "\<bar>y * 100 - of_nat 0\<bar> \<le> 1 / 5" by simp
      from f2u16_float32_near[OF this]
      have "f2u16 (fmul (log10f lib (Fin 1)) (Fin 100)) = Some 0"
        by (auto simp: y unat_eq_0)
      then have "SliderActualValue st' = Some 0" using rs r1 by (simp add: F1)
      then show ?thesis using True by simp
    qed
  next
    case False
    then have s1: "1 \<le> s" by simp
    then have "(of_nat 1 :: rat) \<le> of_nat s" by (simp only: of_nat_le_iff)
    then have sr: "(1::rat) \<le> of_nat s" by simp
    have "(1::rat) \<le> of_nat N" using sr by (simp add: N_def)
    then have tlo: "1 / 1000 \<le> t" using tN by linarith
    have N5: "N < 512" using s by (simp add: N_def)
    from encode_near[OF lg Ff eF[folded F_def] tlo t5 tN N5]
    obtain v0 where v0: "f2u16 (fmul (log10f lib (Fin F)) (Fin 100)) = Some v0"
      and u: "unat v0 = N \<or> unat v0 + 1 = N" by blast
    show ?thesis
    proof (cases "is10HzRange st")
      case True
      have ge: "100 \<le> unat v0" using u s1 True by (auto simp: N_def)
      have "unat (100 :: 16 word) = 100" by simp
      then have le: "(100 :: 16 word) \<le> v0" using ge by (simp add: word_le_nat_alt)
      have "unat (v0 - 100) = unat v0 - unat (100 :: 16 word)" using le by (rule unat_sub)
      then have "unat (v0 - 100) = unat v0 - 100" by simp
      then have "unat (v0 - 100) = s \<or> unat (v0 - 100) + 1 = s"
        using u ge True by (auto simp: N_def)
      then show ?thesis using rs v0 True by simp
    next
      case False
      then show ?thesis using rs v0 u by (simp add: N_def)
    qed
  qed
  then show ?thesis using r r10 by blast
qed

text \<open>
  The theorem with the library cut off after 35 and 30 binary places, at the position
  75 and at the position 0 of the 10 Hz range.
\<close>

theorem slider_round_trip_witness:
  "pow_accurate libm_truncating \<and> log10f_accurate libm_truncating \<and>
   log10f libm_truncating (Fin 10) = Fin 1 \<and>
   (75 :: nat) \<le> 300 \<and> FrequencyFactorTimes1000 (target_state 200 1) \<noteq> 0 \<and>
   is10HzRange (target_state 200 1) \<and>
   (\<exists>st' v. doFrequencySlider libm_truncating Timer32 75 (target_state 200 1) = Some st' \<and>
      SliderActualValue st' = Some v \<and> (unat v = 75 \<or> unat v = 74)) \<and>
   (\<exists>st' v. doFrequencySlider libm_truncating Timer32 0 (target_state 200 1) = Some st' \<and>
      SliderActualValue st' = Some v \<and> unat v = 0)"
proof -
  have h: "FrequencyFactorTimes1000 (target_state 200 1) \<noteq> 0"
    and r: "is10HzRange (target_state 200 1)"
    by (simp_all add: target_state_simps)
  have a: "\<exists>st' v. doFrequencySlider libm_truncating Timer32 75 (target_state 200 1) = Some st' \<and>
      SliderActualValue st' = Some v \<and> (unat v = 75 \<or> unat v = 74)"
    using slider_round_trip[OF libm_truncating_pow libm_truncating_log10f
        libm_truncating_log10f_10, of 75 "target_state 200 1" Timer32] h
    by auto
  have b: "\<exists>st' v. doFrequencySlider libm_truncating Timer32 0 (target_state 200 1) = Some st' \<and>
      SliderActualValue st' = Some v \<and> unat v = 0"
    using slider_round_trip[OF libm_truncating_pow libm_truncating_log10f
        libm_truncating_log10f_10, of 0 "target_state 200 1" Timer32] h
    by auto
  from libm_truncating_pow libm_truncating_log10f libm_truncating_log10f_10 h r a b
  show ?thesis by simp
qed

end
